theory Spec2Isabelle
  imports Main
begin

section \<open>The task-list scavenger: data model\<close>

text \<open>
  The handlers of the task-list scavenger (\<open>deleteHandler\<close>, \<open>tryDeleteTaskList\<close>,
  \<open>deleteHandlerLog\<close>, \<open>isTaskExpired\<close>, \<open>completeOrphanTasksHandler\<close>) are embedded
  as functions over an explicit \<open>world\<close>: the clock, the persisted rows, the counters
  and the logger that the Go code reaches through its receiver \<open>s\<close>.

  Instants (\<open>time.Time\<close>) are integers, nanoseconds relative to \<open>time.Unix(0, 0)\<close>;
  durations are integers in nanoseconds. \<open>time.Now()\<close> and \<open>time.Since\<close> read the
  clock of the world, which stands still during one invocation of a handler and may
  differ from one invocation to the next. The handlers run alone: no other writer
  touches the rows between two persistence calls. Go's \<open>int\<close> counters are unbounded integers
  here: \<open>nProcessed\<close> and \<open>nDeleted\<close> only ever grow by the length of a slice held in
  memory, starting below \<open>maxTasksPerJob\<close>.
\<close>

datatype handlerStatus = handlerStatusDone | handlerStatusErr | handlerStatusDefer

text \<open>
  Go \<open>error\<close> values. \<open>ErrPersistenceLimitExceeded\<close> is the sentinel of package
  \<open>ratelimited\<close> that the orphan handler compares against with \<open>==\<close>.
\<close>

datatype error = ErrPersistenceLimitExceeded | ErrConditionFailed | ErrOther string

text \<open>The fields of \<open>p.TaskListInfo\<close>, \<open>p.TaskInfo\<close> and of an orphan task key that the handlers read.\<close>

record taskListInfo =
  DomainID :: string
  Name :: string
  TaskType :: int
  RangeID :: int
  LastUpdated :: int

record taskInfo =
  TaskID :: int
  Expiry :: int

record taskKey =
  keyDomainID :: string
  TaskListName :: string
  keyTaskType :: int
  keyTaskID :: int

type_synonym queueKey = "string \<times> string \<times> int"

definition queueOf :: "taskListInfo \<Rightarrow> queueKey" where
  "queueOf info = (DomainID info, Name info, TaskType info)"

datatype logEntry = LogInfo string | LogError string

text \<open>The persistence calls a handler issues, in order, with their arguments.\<close>

datatype call =
    GetTasks queueKey int
  | CompleteTasks queueKey int int
  | DeleteTaskList queueKey int
  | GetOrphanTasks int
  | CompleteTask queueKey int

text \<open>
  The injected configuration accessors of the scavenger, read once per invocation, and
  the package constant \<open>taskListGracePeriod\<close>, whose declaration is in another file
  and is therefore a parameter here.
\<close>

record scavenger =
  taskBatchSizeFn :: int
  maxTasksPerJobFn :: int
  getOrphanTasksPageSizeFn :: int
  taskListGracePeriod :: int

text \<open>
  The world: the clock, the task-list metadata rows, the task rows (each under the key
  of its task list, in storage order), the outcome script of the persistence layer
  (one entry is consumed by each call; \<open>None\<close> and an exhausted script mean success),
  the trace of the calls issued, the three counters of \<open>s.stats\<close> and the log.
\<close>

record world =
  now :: int
  taskLists :: "taskListInfo list"
  rows :: "(queueKey \<times> taskInfo) list"
  faults :: "error option list"
  calls :: "call list"
  taskNDeleted :: int
  taskNProcessed :: int
  tasklistNDeleted :: int
  logs :: "logEntry list"

definition scannerTaskListPrefix :: string where
  "scannerTaskListPrefix = ''cadence-sys-tl-scanner''"

text \<open>\<open>strings.HasPrefix\<close>.\<close>

definition HasPrefix :: "string \<Rightarrow> string \<Rightarrow> bool" where
  "HasPrefix s p = (take (length p) s = p)"

section \<open>The persistence layer\<close>

definition tasksOf :: "queueKey \<Rightarrow> (queueKey \<times> taskInfo) list \<Rightarrow> taskInfo list" where
  "tasksOf k rs = map snd (filter (\<lambda>r. fst r = k) rs)"

text \<open>Every persistence call first records itself and consumes one entry of the outcome script.\<close>

definition nextFault :: "call \<Rightarrow> world \<Rightarrow> error option \<times> world" where
  "nextFault c w =
     (case faults w of
        [] \<Rightarrow> (None, w\<lparr>calls := calls w @ [c]\<rparr>)
      | f # fs \<Rightarrow> (f, w\<lparr>faults := fs, calls := calls w @ [c]\<rparr>))"

text \<open>
  Modelled from the spec: the scavenger's wrappers \<open>getTasks\<close>, \<open>completeTasks\<close>,
  \<open>deleteTaskList\<close>, \<open>getOrphanTasks\<close> and \<open>completeTask\<close> around the persistence
  contract are not part of the sources at hand. The contract reads: get-tasks(queue,
  pageSize) returns rows in taskID order; complete-tasks(queue, uptoTaskID, count)
  deletes rows up to that taskID, at most count of them; delete-queue(expectedRangeID)
  is a conditional delete; get-orphan-tasks(pageSize) returns task rows whose queue
  metadata no longer exists. Any call may fail, the rate-limited failure being
  distinguished.
\<close>

definition getTasks :: "taskListInfo \<Rightarrow> int \<Rightarrow> world \<Rightarrow> (error + taskInfo list) \<times> world" where
  "getTasks info batchSize w =
     (case nextFault (GetTasks (queueOf info) batchSize) w of
        (Some e, w') \<Rightarrow> (Inl e, w')
      | (None, w') \<Rightarrow> (Inr (take (nat batchSize) (tasksOf (queueOf info) (rows w'))), w'))"

text \<open>
  Modelled from the spec: complete-tasks removes, in storage order, the first
  \<open>limit\<close> rows of the queue whose taskID does not exceed \<open>taskID\<close>.
\<close>

fun removeUpTo :: "queueKey \<Rightarrow> int \<Rightarrow> nat \<Rightarrow> (queueKey \<times> taskInfo) list \<Rightarrow> (queueKey \<times> taskInfo) list" where
  "removeUpTo k tid 0 rs = rs"
| "removeUpTo k tid (Suc n) [] = []"
| "removeUpTo k tid (Suc n) (r # rs) =
     (if fst r = k \<and> TaskID (snd r) \<le> tid then removeUpTo k tid n rs
      else r # removeUpTo k tid (Suc n) rs)"

definition completeTasks :: "taskListInfo \<Rightarrow> int \<Rightarrow> int \<Rightarrow> world \<Rightarrow> (error + int) \<times> world" where
  "completeTasks info taskID limit w =
     (case nextFault (CompleteTasks (queueOf info) taskID limit) w of
        (Some e, w') \<Rightarrow> (Inl e, w')
      | (None, w') \<Rightarrow>
          (let rs = removeUpTo (queueOf info) taskID (nat limit) (rows w')
           in (Inr (int (length (rows w')) - int (length rs)), w'\<lparr>rows := rs\<rparr>)))"

text \<open>
  Modelled from the spec: delete-queue is conditional on the rangeID the caller
  observed; with a stale rangeID (or no such queue) it fails and changes nothing.
\<close>

definition deleteTaskList :: "taskListInfo \<Rightarrow> world \<Rightarrow> error option \<times> world" where
  "deleteTaskList info w =
     (case nextFault (DeleteTaskList (queueOf info) (RangeID info)) w of
        (Some e, w') \<Rightarrow> (Some e, w')
      | (None, w') \<Rightarrow>
          (if list_ex (\<lambda>m. queueOf m = queueOf info \<and> RangeID m = RangeID info) (taskLists w')
           then (None, w'\<lparr>taskLists := filter (\<lambda>m. queueOf m \<noteq> queueOf info) (taskLists w')\<rparr>)
           else (Some ErrConditionFailed, w')))"

text \<open>Modelled from the spec: the orphans are the task rows whose queue has no metadata row.\<close>

definition isOrphan :: "world \<Rightarrow> queueKey \<times> taskInfo \<Rightarrow> bool" where
  "isOrphan w r = (\<not> list_ex (\<lambda>m. queueOf m = fst r) (taskLists w))"

definition toTaskKey :: "queueKey \<times> taskInfo \<Rightarrow> taskKey" where
  "toTaskKey r =
     (case r of ((d, n, ty), t) \<Rightarrow>
        \<lparr>keyDomainID = d, TaskListName = n, keyTaskType = ty, keyTaskID = TaskID t\<rparr>)"

definition getOrphanTasks :: "int \<Rightarrow> world \<Rightarrow> (error + taskKey list) \<times> world" where
  "getOrphanTasks limit w =
     (case nextFault (GetOrphanTasks limit) w of
        (Some e, w') \<Rightarrow> (Inl e, w')
      | (None, w') \<Rightarrow> (Inr (map toTaskKey (take (nat limit) (filter (isOrphan w') (rows w')))), w'))"

definition completeTask :: "taskListInfo \<Rightarrow> int \<Rightarrow> world \<Rightarrow> error option \<times> world" where
  "completeTask info taskID w =
     (case nextFault (CompleteTask (queueOf info) taskID) w of
        (Some e, w') \<Rightarrow> (Some e, w')
      | (None, w') \<Rightarrow>
          (None, w'\<lparr>rows := filter (\<lambda>r. \<not> (fst r = queueOf info \<and> TaskID (snd r) = taskID)) (rows w')\<rparr>))"

section \<open>The handlers\<close>

text \<open>
  \<open>isTaskExpired\<close>: \<open>t.Expiry.After(time.Unix(0, 0)) && time.Now().After(t.Expiry)\<close>.
\<close>

definition isTaskExpired :: "int \<Rightarrow> taskInfo \<Rightarrow> bool" where
  "isTaskExpired tnow t = (0 < Expiry t \<and> Expiry t < tnow)"

text \<open>\<open>tryDeleteTaskList\<close>, with its two early returns, the conditional delete, the counter and the log.\<close>

definition tryDeleteTaskList :: "scavenger \<Rightarrow> taskListInfo \<Rightarrow> world \<Rightarrow> world" where
  "tryDeleteTaskList s info w =
     (if HasPrefix (Name info) scannerTaskListPrefix then w
      else
        (let delta = now w - LastUpdated info in
         if delta < taskListGracePeriod s then w
         else
           (case deleteTaskList info w of
              (Some e, w1) \<Rightarrow> w1\<lparr>logs := logs w1 @ [LogError ''deleteTaskList error'']\<rparr>
            | (None, w1) \<Rightarrow>
                w1\<lparr>tasklistNDeleted := tasklistNDeleted w1 + 1,
                   logs := logs w1 @ [LogInfo ''tasklist deleted'']\<rparr>)))"

text \<open>\<open>deleteHandlerLog\<close>, the deferred call of \<open>deleteHandler\<close>.\<close>

definition deleteHandlerLog :: "taskListInfo \<Rightarrow> int \<Rightarrow> int \<Rightarrow> error option \<Rightarrow> world \<Rightarrow> world" where
  "deleteHandlerLog info nProcessed nDeleted err w =
     (let w1 = w\<lparr>taskNDeleted := taskNDeleted w + nDeleted,
                  taskNProcessed := taskNProcessed w + nProcessed\<rparr>
      in if err \<noteq> None then w1\<lparr>logs := logs w1 @ [LogError ''scavenger.deleteHandler processed.'']\<rparr>
         else if nProcessed > 0 then w1\<lparr>logs := logs w1 @ [LogInfo ''scavenger.deleteHandler processed.'']\<rparr>
         else w1)"

text \<open>
  The inner loop of \<open>deleteHandler\<close> over one batch: it counts every task it looks at
  and stops at the first one that is not expired. The flag tells whether the whole
  batch was expired.
\<close>

fun scanBatch :: "int \<Rightarrow> int \<Rightarrow> taskInfo list \<Rightarrow> int \<times> bool" where
  "scanBatch tnow nProcessed [] = (nProcessed, True)"
| "scanBatch tnow nProcessed (task # tasks) =
     (if \<not> isTaskExpired tnow task then (nProcessed + 1, False)
      else scanBatch tnow (nProcessed + 1) tasks)"

text \<open>What \<open>deleteHandler\<close> holds when it returns: the status and the variables its deferred log reads.\<close>

record run =
  status :: handlerStatus
  nProcessedOf :: int
  nDeletedOf :: int
  errOf :: "error option"
  worldOf :: world

text \<open>The outer loop of \<open>deleteHandler\<close>: \<open>for nProcessed < maxTasksPerJob\<close>.\<close>

function deleteLoop :: "scavenger \<Rightarrow> taskListInfo \<Rightarrow> int \<Rightarrow> int \<Rightarrow> world \<Rightarrow> run" where
  "deleteLoop s info nProcessed nDeleted w =
     (if nProcessed < maxTasksPerJobFn s then
        (case getTasks info (taskBatchSizeFn s) w of
           (Inl err1, w1) \<Rightarrow>
             \<lparr>status = handlerStatusErr, nProcessedOf = nProcessed, nDeletedOf = nDeleted,
              errOf = Some err1, worldOf = w1\<rparr>
         | (Inr tasks, w1) \<Rightarrow>
             (let nTasks = int (length tasks) in
              if nTasks = 0 then
                \<lparr>status = handlerStatusDone, nProcessedOf = nProcessed, nDeletedOf = nDeleted,
                 errOf = None, worldOf = tryDeleteTaskList s info w1\<rparr>
              else
                (case scanBatch (now w1) nProcessed tasks of
                   (nProcessed', False) \<Rightarrow>
                     \<lparr>status = handlerStatusDone, nProcessedOf = nProcessed', nDeletedOf = nDeleted,
                      errOf = None, worldOf = w1\<rparr>
                 | (nProcessed', True) \<Rightarrow>
                     (let taskID = TaskID (last tasks) in
                      case completeTasks info taskID nTasks w1 of
                        (Inl err, w2) \<Rightarrow>
                          \<lparr>status = handlerStatusErr, nProcessedOf = nProcessed', nDeletedOf = nDeleted,
                           errOf = Some err, worldOf = w2\<rparr>
                      | (Inr _, w2) \<Rightarrow>
                          (let nDeleted' = nDeleted + nTasks in
                           if nTasks < taskBatchSizeFn s then
                             \<lparr>status = handlerStatusDone, nProcessedOf = nProcessed', nDeletedOf = nDeleted',
                              errOf = None, worldOf = tryDeleteTaskList s info w2\<rparr>
                           else deleteLoop s info nProcessed' nDeleted' w2)))))
      else
        \<lparr>status = handlerStatusDefer, nProcessedOf = nProcessed, nDeletedOf = nDeleted,
         errOf = None, worldOf = w\<rparr>)"
  by pat_completeness auto
termination
proof -
  have all: "n' = n + int (length ts)" if "(n', True) = scanBatch tnow n ts" for tnow n ts n'
    using that
  proof (induction ts arbitrary: n)
    case Nil
    then show ?case by simp
  next
    case (Cons t ts)
    from Cons.prems have "(n', True) = scanBatch tnow (n + 1) ts"
      by (simp split: if_splits)
    from Cons.IH [OF this] show ?case by simp
  qed
  show ?thesis
    by (relation "measure (\<lambda>(s, info, nProcessed, nDeleted, w). nat (maxTasksPerJobFn s - nProcessed))")
       (auto dest: all)
qed

declare deleteLoop.simps [simp del]

text \<open>
  \<open>deleteHandler\<close>: the loop from both counters at zero, then the deferred
  \<open>deleteHandlerLog\<close> on the final values of \<open>nProcessed\<close>, \<open>nDeleted\<close> and \<open>err\<close>.
\<close>

definition deleteHandler :: "scavenger \<Rightarrow> taskListInfo \<Rightarrow> world \<Rightarrow> handlerStatus \<times> world" where
  "deleteHandler s info w =
     (let r = deleteLoop s info 0 0 w
      in (status r, deleteHandlerLog info (nProcessedOf r) (nDeletedOf r) (errOf r) (worldOf r)))"

text \<open>The zero \<open>time.Time\<close> (year 1), which the fields left out of a struct literal hold.\<close>

definition zeroTime :: int where
  "zeroTime = - 62135596800000000000"

text \<open>
  The loop of \<open>completeOrphanTasksHandler\<close> over the page of orphan task keys. An
  early return carries its status; \<open>None\<close> means the loop ran to its end.
\<close>

fun completeOrphanLoop :: "taskKey list \<Rightarrow> int \<Rightarrow> world \<Rightarrow> handlerStatus option \<times> int \<times> world" where
  "completeOrphanLoop [] nDeleted w = (None, nDeleted, w)"
| "completeOrphanLoop (taskKey # rest) nDeleted w =
     (case completeTask
             \<lparr>DomainID = keyDomainID taskKey, Name = TaskListName taskKey,
              TaskType = keyTaskType taskKey, RangeID = 0, LastUpdated = zeroTime\<rparr>
             (keyTaskID taskKey) w of
        (Some err, w1) \<Rightarrow>
          (if err = ErrPersistenceLimitExceeded then
             (Some handlerStatusDefer, nDeleted,
              w1\<lparr>logs := logs w1 @ [LogInfo ''scavenger.completeOrphanTasksHandler query was ratelimited; will retry'']\<rparr>)
           else
             (Some handlerStatusErr, nDeleted,
              w1\<lparr>logs := logs w1 @ [LogError ''scavenger.completeOrphanTasksHandler error getting orphan tasks'']\<rparr>))
      | (None, w1) \<Rightarrow>
          completeOrphanLoop rest (nDeleted + 1)
            (w1\<lparr>taskNDeleted := taskNDeleted w1 + 1, taskNProcessed := taskNProcessed w1 + 1\<rparr>))"

definition completeOrphanTasksHandler :: "scavenger \<Rightarrow> world \<Rightarrow> handlerStatus \<times> world" where
  "completeOrphanTasksHandler s w =
     (let batchSize = getOrphanTasksPageSizeFn s in
      case getOrphanTasks batchSize w of
        (Inl err, w1) \<Rightarrow>
          (if err = ErrPersistenceLimitExceeded then
             (handlerStatusDefer,
              w1\<lparr>logs := logs w1 @ [LogInfo ''scavenger.completeOrphanTasksHandler query was ratelimited; will retry'']\<rparr>)
           else
             (handlerStatusErr,
              w1\<lparr>logs := logs w1 @ [LogError ''scavenger.completeOrphanTasksHandler error getting orphan tasks'']\<rparr>))
      | (Inr tasks, w1) \<Rightarrow>
          (case completeOrphanLoop tasks 0 w1 of
             (Some st, nDeleted, w2) \<Rightarrow> (st, w2)
           | (None, nDeleted, w2) \<Rightarrow>
               (let w3 = w2\<lparr>logs := logs w2 @ [LogInfo ''scavenger.completeOrphanTasksHandler deleted.'']\<rparr>
                in if int (length tasks) < batchSize then (handlerStatusDone, w3)
                   else (handlerStatusDefer, w3))))"

section \<open>Iterations of the delete loop\<close>

text \<open>
  \<open>iteration s info w0 nProcessed nDeleted w\<close>: an invocation of \<open>deleteHandler\<close> started
  in world \<open>w0\<close> stands at the head of its loop with these counters in world \<open>w\<close>. The
  loop comes back to its head only after a full, wholly expired batch was fetched and
  completed without error.
\<close>

inductive iteration :: "scavenger \<Rightarrow> taskListInfo \<Rightarrow> world \<Rightarrow> int \<Rightarrow> int \<Rightarrow> world \<Rightarrow> bool"
  for s :: scavenger and info :: taskListInfo and w0 :: world where
  first: "iteration s info w0 0 0 w0"
| again: "iteration s info w0 nProcessed nDeleted w \<Longrightarrow>
          nProcessed < maxTasksPerJobFn s \<Longrightarrow>
          getTasks info (taskBatchSizeFn s) w = (Inr tasks, w1) \<Longrightarrow>
          tasks \<noteq> [] \<Longrightarrow>
          scanBatch (now w1) nProcessed tasks = (nProcessed', True) \<Longrightarrow>
          completeTasks info (TaskID (last tasks)) (int (length tasks)) w1 = (Inr n, w2) \<Longrightarrow>
          \<not> int (length tasks) < taskBatchSizeFn s \<Longrightarrow>
          iteration s info w0 nProcessed' (nDeleted + int (length tasks)) w2"

code_pred iteration .

text \<open>The part of the call trace that asks for the deletion of task-list metadata.\<close>

fun isDeleteTaskList :: "call \<Rightarrow> bool" where
  "isDeleteTaskList (DeleteTaskList k r) = True"
| "isDeleteTaskList c = False"

fun isCompleteTasks :: "call \<Rightarrow> bool" where
  "isCompleteTasks (CompleteTasks k t n) = True"
| "isCompleteTasks c = False"

text \<open>Between two worlds, a call asking for the deletion of task-list metadata was issued.\<close>

definition deleteAttempted :: "world \<Rightarrow> world \<Rightarrow> bool" where
  "deleteAttempted w w' =
     (filter isDeleteTaskList (calls w') \<noteq> filter isDeleteTaskList (calls w))"

text \<open>
  The two guards of \<open>tryDeleteTaskList\<close> let it through: the name does not carry the
  scanner prefix and the time since \<open>LastUpdated\<close> is at least the grace period.
\<close>

definition mayDeleteTaskList :: "scavenger \<Rightarrow> taskListInfo \<Rightarrow> world \<Rightarrow> bool" where
  "mayDeleteTaskList s info w =
     (\<not> HasPrefix (Name info) scannerTaskListPrefix \<and>
      taskListGracePeriod s \<le> now w - LastUpdated info)"

definition sortedQueue :: "queueKey \<Rightarrow> world \<Rightarrow> bool" where
  "sortedQueue k w = sorted (map TaskID (tasksOf k (rows w)))"

section \<open>A small concrete world\<close>

text \<open>
  One task list, two kinds of task rows and a clock at 1000, for evaluating the handlers
  on concrete inputs: a page size of 2 and a budget of 3 tasks per job.
\<close>

definition demoQueue :: taskListInfo where
  "demoQueue = \<lparr>DomainID = ''d1'', Name = ''orders'', TaskType = 0, RangeID = 7, LastUpdated = 100\<rparr>"

definition demoScavenger :: scavenger where
  "demoScavenger =
     \<lparr>taskBatchSizeFn = 2, maxTasksPerJobFn = 3, getOrphanTasksPageSizeFn = 2, taskListGracePeriod = 500\<rparr>"

definition expiredTask :: "int \<Rightarrow> taskInfo" where
  "expiredTask i = \<lparr>TaskID = i, Expiry = 5\<rparr>"

definition liveTask :: "int \<Rightarrow> taskInfo" where
  "liveTask i = \<lparr>TaskID = i, Expiry = 2000\<rparr>"

definition demoWorld :: "taskInfo list \<Rightarrow> error option list \<Rightarrow> world" where
  "demoWorld ts fs =
     \<lparr>now = 1000, taskLists = [demoQueue], rows = map (Pair (queueOf demoQueue)) ts, faults = fs,
      calls = [], taskNDeleted = 0, taskNProcessed = 0, tasklistNDeleted = 0, logs = []\<rparr>"

definition eternalTask :: "int \<Rightarrow> taskInfo" where
  "eternalTask i = \<lparr>TaskID = i, Expiry = 0\<rparr>"

text \<open>The same world without any task-list metadata: every task row is an orphan.\<close>

definition orphanWorld :: "taskInfo list \<Rightarrow> error option list \<Rightarrow> world" where
  "orphanWorld ts fs = (demoWorld ts fs)\<lparr>taskLists := []\<rparr>"

text \<open>
  The scavenger run of Scenario E: 150 expired tasks with the taskIDs 1 to 150, a page
  size of 100 and a budget of 100 tasks per job.
\<close>

definition scenarioScavenger :: scavenger where
  "scenarioScavenger =
     \<lparr>taskBatchSizeFn = 100, maxTasksPerJobFn = 100, getOrphanTasksPageSizeFn = 100,
      taskListGracePeriod = 500\<rparr>"

definition scenarioWorld :: world where
  "scenarioWorld = demoWorld (map (\<lambda>i. expiredTask (int i)) [1..<151]) []"

section \<open>Properties\<close>

subsection \<open>Frame lemmas and single steps of the loop\<close>

lemma scanBatch_all: "scanBatch tnow n ts = (n', True) \<Longrightarrow> n' = n + int (length ts)"
proof (induction ts arbitrary: n)
  case Nil
  then show ?case by simp
next
  case (Cons t ts)
  from Cons.prems have "scanBatch tnow (n + 1) ts = (n', True)"
    by (simp split: if_splits)
  from Cons.IH [OF this] show ?case by simp
qed

lemma deleteLoop_iteration:
  "iteration s info w0 nProcessed nDeleted w \<Longrightarrow>
   deleteLoop s info nProcessed nDeleted w = deleteLoop s info 0 0 w0"
proof (induction rule: iteration.induct)
  case first
  show ?case ..
next
  case (again nProcessed nDeleted w tasks w1 nProcessed' n w2)
  have "deleteLoop s info nProcessed nDeleted w =
        deleteLoop s info nProcessed' (nDeleted + int (length tasks)) w2"
    using again.hyps by (simp add: deleteLoop.simps [of s info nProcessed nDeleted w])
  with again.IH show ?case by simp
qed

lemma nextFault_frame:
  "nextFault c w = (f, w') \<Longrightarrow>
   now w' = now w \<and> taskLists w' = taskLists w \<and> rows w' = rows w \<and>
   calls w' = calls w @ [c] \<and> taskNDeleted w' = taskNDeleted w \<and>
   taskNProcessed w' = taskNProcessed w \<and> tasklistNDeleted w' = tasklistNDeleted w \<and>
   logs w' = logs w \<and> faults w' = tl (faults w) \<and>
   f = (case faults w of [] \<Rightarrow> None | x # xs \<Rightarrow> x)"
  by (auto simp: nextFault_def split: list.splits)

lemma getTasks_Inr:
  "getTasks info bs w = (Inr ts, w1) \<Longrightarrow>
   ts = take (nat bs) (tasksOf (queueOf info) (rows w)) \<and>
   now w1 = now w \<and> taskLists w1 = taskLists w \<and> rows w1 = rows w \<and>
   calls w1 = calls w @ [GetTasks (queueOf info) bs] \<and> taskNDeleted w1 = taskNDeleted w \<and>
   taskNProcessed w1 = taskNProcessed w \<and> tasklistNDeleted w1 = tasklistNDeleted w \<and>
   logs w1 = logs w \<and> faults w1 = tl (faults w)"
  unfolding getTasks_def
  by (auto split: prod.splits option.splits dest!: nextFault_frame)

lemma getTasks_Inl:
  "getTasks info bs w = (Inl e, w1) \<Longrightarrow>
   now w1 = now w \<and> taskLists w1 = taskLists w \<and> rows w1 = rows w \<and>
   calls w1 = calls w @ [GetTasks (queueOf info) bs] \<and> taskNDeleted w1 = taskNDeleted w \<and>
   taskNProcessed w1 = taskNProcessed w \<and> tasklistNDeleted w1 = tasklistNDeleted w \<and>
   logs w1 = logs w \<and> faults w1 = tl (faults w) \<and> faults w \<noteq> [] \<and> hd (faults w) = Some e"
  unfolding getTasks_def
  by (auto split: prod.splits option.splits list.splits dest!: nextFault_frame)

lemma completeTasks_Inr:
  "completeTasks info tid n w = (Inr c, w1) \<Longrightarrow>
   rows w1 = removeUpTo (queueOf info) tid (nat n) (rows w) \<and>
   now w1 = now w \<and> taskLists w1 = taskLists w \<and>
   calls w1 = calls w @ [CompleteTasks (queueOf info) tid n] \<and> taskNDeleted w1 = taskNDeleted w \<and>
   taskNProcessed w1 = taskNProcessed w \<and> tasklistNDeleted w1 = tasklistNDeleted w \<and>
   logs w1 = logs w \<and> faults w1 = tl (faults w)"
  unfolding completeTasks_def
  by (auto simp: Let_def split: prod.splits option.splits dest!: nextFault_frame)

lemma completeTasks_Inl:
  "completeTasks info tid n w = (Inl e, w1) \<Longrightarrow>
   rows w1 = rows w \<and>
   now w1 = now w \<and> taskLists w1 = taskLists w \<and>
   calls w1 = calls w @ [CompleteTasks (queueOf info) tid n] \<and> taskNDeleted w1 = taskNDeleted w \<and>
   taskNProcessed w1 = taskNProcessed w \<and> tasklistNDeleted w1 = tasklistNDeleted w \<and>
   logs w1 = logs w \<and> faults w1 = tl (faults w) \<and> faults w \<noteq> [] \<and> hd (faults w) = Some e"
  unfolding completeTasks_def
  by (auto simp: Let_def split: prod.splits option.splits list.splits dest!: nextFault_frame)

lemma scanBatch_unexpired:
  "\<exists>t \<in> set ts. \<not> isTaskExpired tnow t \<Longrightarrow> snd (scanBatch tnow n ts) = False"
  by (induction ts arbitrary: n) auto

lemma scanBatch_count:
  "ts \<noteq> [] \<Longrightarrow> n < fst (scanBatch tnow n ts) \<and> fst (scanBatch tnow n ts) \<le> n + int (length ts)"
proof (induction ts arbitrary: n)
  case Nil
  then show ?case by simp
next
  case (Cons t ts)
  show ?case
  proof (cases ts)
    case Nil
    then show ?thesis by simp
  next
    case (Cons a list)
    then have "ts \<noteq> []" by simp
    from Cons.IH [OF this, of "n + 1"] show ?thesis by auto
  qed
qed

lemma scanBatch_expired:
  "\<forall>t \<in> set ts. isTaskExpired tnow t \<Longrightarrow> scanBatch tnow n ts = (n + int (length ts), True)"
  by (induction ts arbitrary: n) auto

lemma deleteLoop_unexpired:
  assumes "nProcessed < maxTasksPerJobFn s"
    and "getTasks info (taskBatchSizeFn s) w = (Inr tasks, w1)"
    and "\<exists>t \<in> set tasks. \<not> isTaskExpired (now w1) t"
  shows "deleteLoop s info nProcessed nDeleted w =
         \<lparr>status = handlerStatusDone, nProcessedOf = fst (scanBatch (now w1) nProcessed tasks),
          nDeletedOf = nDeleted, errOf = None, worldOf = w1\<rparr>"
proof -
  from assms(3) have ne: "tasks \<noteq> []" by auto
  from scanBatch_unexpired [OF assms(3), of nProcessed]
  obtain m where m: "scanBatch (now w1) nProcessed tasks = (m, False)"
    by (cases "scanBatch (now w1) nProcessed tasks") auto
  show ?thesis
    using assms(1,2) ne m by (simp add: deleteLoop.simps [of s info nProcessed nDeleted w])
qed


lemma tasksOf_mem: "t \<in> set (tasksOf k rs) \<longleftrightarrow> (k, t) \<in> set rs"
  by (force simp: tasksOf_def)

lemma iteration_frame:
  "iteration s info w0 nProcessed nDeleted w \<Longrightarrow>
   0 \<le> nProcessed \<and> 0 \<le> nDeleted \<and> now w = now w0 \<and> taskLists w = taskLists w0 \<and>
   logs w = logs w0 \<and> taskNDeleted w = taskNDeleted w0 \<and> taskNProcessed w = taskNProcessed w0 \<and>
   tasklistNDeleted w = tasklistNDeleted w0 \<and>
   filter isDeleteTaskList (calls w) = filter isDeleteTaskList (calls w0)"
proof (induction rule: iteration.induct)
  case first
  show ?case by simp
next
  case (again nProcessed nDeleted w tasks w1 nProcessed' n w2)
  from again.hyps(3) have g: "now w1 = now w" "taskLists w1 = taskLists w" "logs w1 = logs w"
    "taskNDeleted w1 = taskNDeleted w" "taskNProcessed w1 = taskNProcessed w"
    "tasklistNDeleted w1 = tasklistNDeleted w"
    "calls w1 = calls w @ [GetTasks (queueOf info) (taskBatchSizeFn s)]"
    by (auto dest: getTasks_Inr)
  from again.hyps(6) have c: "now w2 = now w1" "taskLists w2 = taskLists w1" "logs w2 = logs w1"
    "taskNDeleted w2 = taskNDeleted w1" "taskNProcessed w2 = taskNProcessed w1"
    "tasklistNDeleted w2 = tasklistNDeleted w1"
    "calls w2 = calls w1 @ [CompleteTasks (queueOf info) (TaskID (last tasks)) (int (length tasks))]"
    by (auto dest: completeTasks_Inr)
  from scanBatch_all [OF again.hyps(5)] have "nProcessed' = nProcessed + int (length tasks)" .
  with again.IH g c show ?case by simp
qed

lemma deleteHandlerLog_frame:
  "now (deleteHandlerLog info p d e w) = now w"
  "rows (deleteHandlerLog info p d e w) = rows w"
  "taskLists (deleteHandlerLog info p d e w) = taskLists w"
  "calls (deleteHandlerLog info p d e w) = calls w"
  "faults (deleteHandlerLog info p d e w) = faults w"
  "tasklistNDeleted (deleteHandlerLog info p d e w) = tasklistNDeleted w"
  "taskNDeleted (deleteHandlerLog info p d e w) = taskNDeleted w + d"
  "taskNProcessed (deleteHandlerLog info p d e w) = taskNProcessed w + p"
  by (simp_all add: deleteHandlerLog_def Let_def)

lemma deleteTaskList_frame:
  "deleteTaskList info w = (r, w1) \<Longrightarrow>
   rows w1 = rows w \<and> now w1 = now w \<and>
   calls w1 = calls w @ [DeleteTaskList (queueOf info) (RangeID info)] \<and>
   faults w1 = tl (faults w) \<and> logs w1 = logs w \<and>
   taskNDeleted w1 = taskNDeleted w \<and> taskNProcessed w1 = taskNProcessed w \<and>
   tasklistNDeleted w1 = tasklistNDeleted w"
  unfolding deleteTaskList_def
  by (auto split: prod.splits option.splits if_splits dest!: nextFault_frame)

lemma tryDeleteTaskList_frame:
  "rows (tryDeleteTaskList s info w) = rows w"
  "now (tryDeleteTaskList s info w) = now w"
  "taskNDeleted (tryDeleteTaskList s info w) = taskNDeleted w"
  "taskNProcessed (tryDeleteTaskList s info w) = taskNProcessed w"
  unfolding tryDeleteTaskList_def
  by (auto simp: Let_def split: prod.splits option.splits dest!: deleteTaskList_frame)

lemma tryDeleteTaskList_calls:
  "calls (tryDeleteTaskList s info w) =
     (if HasPrefix (Name info) scannerTaskListPrefix \<or> now w - LastUpdated info < taskListGracePeriod s
      then calls w else calls w @ [DeleteTaskList (queueOf info) (RangeID info)])"
  unfolding tryDeleteTaskList_def
  by (auto simp: Let_def split: prod.splits option.splits dest!: deleteTaskList_frame)

lemma tryDeleteTaskList_skipped:
  "HasPrefix (Name info) scannerTaskListPrefix \<or> now w - LastUpdated info < taskListGracePeriod s \<Longrightarrow>
   tryDeleteTaskList s info w = w"
  by (auto simp: tryDeleteTaskList_def Let_def)

lemma tasksOf_Cons:
  "tasksOf k (r # rs) = (if fst r = k then snd r # tasksOf k rs else tasksOf k rs)"
  by (simp add: tasksOf_def)

lemma tasksOf_Nil [simp]: "tasksOf k [] = []"
  by (simp add: tasksOf_def)

lemmas demo_eval =
  deleteHandler_def deleteLoop.simps getTasks_def completeTasks_def nextFault_def demoWorld_def
  demoScavenger_def tryDeleteTaskList_def deleteTaskList_def deleteHandlerLog_def HasPrefix_def
  scannerTaskListPrefix_def demoQueue_def queueOf_def isTaskExpired_def liveTask_def
  expiredTask_def eternalTask_def tasksOf_Cons Let_def

lemma tryDeleteTaskList_attempt:
  assumes "mayDeleteTaskList s info w"
  shows "calls (tryDeleteTaskList s info w) = calls w @ [DeleteTaskList (queueOf info) (RangeID info)]"
    and "faults w = [] \<Longrightarrow>
         list_ex (\<lambda>m. queueOf m = queueOf info \<and> RangeID m = RangeID info) (taskLists w) \<Longrightarrow>
         taskLists (tryDeleteTaskList s info w) = filter (\<lambda>m. queueOf m \<noteq> queueOf info) (taskLists w) \<and>
         tasklistNDeleted (tryDeleteTaskList s info w) = tasklistNDeleted w + 1"
  using assms
  by (auto simp: mayDeleteTaskList_def tryDeleteTaskList_def deleteTaskList_def nextFault_def Let_def
      split: list.splits option.splits)

lemma tryDeleteTaskList_no_attempt:
  "\<not> mayDeleteTaskList s info w \<Longrightarrow> tryDeleteTaskList s info w = w"
  by (auto simp: mayDeleteTaskList_def tryDeleteTaskList_def Let_def)

subsection \<open>The delete handler, one iteration at a time\<close>

text \<open>
  Claim C1. Whenever an invocation of \<open>deleteHandler\<close> stands at the head of its loop
  within budget and the batch it fetches holds an unexpired task at position \<open>k\<close>, the
  invocation returns Done, every task of the batch from position \<open>k\<close> on is still
  stored afterwards, no persistence call follows the fetch, and no error is reported:
  \<open>err\<close> is nil and the deferred log writes an Info entry only.
\<close>

theorem deleteHandler_unexpired_stops:
  assumes "iteration s info w0 nProcessed nDeleted w"
    and "nProcessed < maxTasksPerJobFn s"
    and "getTasks info (taskBatchSizeFn s) w = (Inr tasks, w1)"
    and "k < length tasks"
    and "\<not> isTaskExpired (now w1) (tasks ! k)"
  shows "fst (deleteHandler s info w0) = handlerStatusDone \<and>
         (\<forall>i. k \<le> i \<and> i < length tasks \<longrightarrow>
              (queueOf info, tasks ! i) \<in> set (rows (snd (deleteHandler s info w0)))) \<and>
         calls (snd (deleteHandler s info w0)) = calls w @ [GetTasks (queueOf info) (taskBatchSizeFn s)] \<and>
         errOf (deleteLoop s info 0 0 w0) = None \<and>
         logs (snd (deleteHandler s info w0)) = logs w0 @ [LogInfo ''scavenger.deleteHandler processed.'']"
proof -
  from assms(4,5) have ex: "\<exists>t \<in> set tasks. \<not> isTaskExpired (now w1) t"
    using nth_mem by blast
  then have ne: "tasks \<noteq> []" by auto
  have run: "deleteLoop s info 0 0 w0 =
      \<lparr>status = handlerStatusDone, nProcessedOf = fst (scanBatch (now w1) nProcessed tasks),
       nDeletedOf = nDeleted, errOf = None, worldOf = w1\<rparr>"
    using deleteLoop_unexpired [OF assms(2,3) ex] deleteLoop_iteration [OF assms(1)] by simp
  from iteration_frame [OF assms(1)] have fr: "0 \<le> nProcessed" "logs w = logs w0" by simp_all
  from scanBatch_count [OF ne, of nProcessed "now w1"] fr(1)
  have pos: "0 < fst (scanBatch (now w1) nProcessed tasks)" by simp
  from getTasks_Inr [OF assms(3)] have g: "rows w1 = rows w" "logs w1 = logs w"
    "calls w1 = calls w @ [GetTasks (queueOf info) (taskBatchSizeFn s)]"
    "tasks = take (nat (taskBatchSizeFn s)) (tasksOf (queueOf info) (rows w))" by simp_all
  have mem: "(queueOf info, tasks ! i) \<in> set (rows w1)" if "i < length tasks" for i
  proof -
    from that have "tasks ! i \<in> set tasks" by simp
    with g(4) have "tasks ! i \<in> set (tasksOf (queueOf info) (rows w))"
      by (metis in_set_takeD)
    with g(1) show ?thesis by (simp add: tasksOf_mem)
  qed
  show ?thesis
    using run pos g(2,3) fr(2) mem
    by (simp add: deleteHandler_def deleteHandlerLog_frame) (simp add: deleteHandlerLog_def)
qed


lemma tasksOf_map_Pair [simp]: "tasksOf k (map (Pair k) ts) = ts"
  by (induction ts) (simp_all add: tasksOf_def)

lemma demo_getTasks:
  "getTasks demoQueue 2 (demoWorld ts []) =
     (Inr (take 2 ts), (demoWorld ts [])\<lparr>calls := [GetTasks (queueOf demoQueue) 2]\<rparr>)"
  by (simp add: getTasks_def nextFault_def demoWorld_def)

theorem deleteHandler_unexpired_stops_witness:
  "fst (deleteHandler demoScavenger demoQueue (demoWorld [expiredTask 1, liveTask 2] [])) = handlerStatusDone \<and>
   (queueOf demoQueue, liveTask 2) \<in>
     set (rows (snd (deleteHandler demoScavenger demoQueue (demoWorld [expiredTask 1, liveTask 2] []))))"
proof -
  let ?w = "demoWorld [expiredTask 1, liveTask 2] []"
  have g: "getTasks demoQueue (taskBatchSizeFn demoScavenger) ?w =
      (Inr [expiredTask 1, liveTask 2], ?w\<lparr>calls := [GetTasks (queueOf demoQueue) 2]\<rparr>)"
    using demo_getTasks [of "[expiredTask 1, liveTask 2]"] by (simp add: demoScavenger_def)
  have b: "0 < maxTasksPerJobFn demoScavenger" by (simp add: demoScavenger_def)
  have k: "(1::nat) < length [expiredTask 1, liveTask 2]" by simp
  have u: "\<not> isTaskExpired (now (?w\<lparr>calls := [GetTasks (queueOf demoQueue) 2]\<rparr>))
              ([expiredTask 1, liveTask 2] ! 1)"
    by (simp add: isTaskExpired_def liveTask_def demoWorld_def)
  note t = deleteHandler_unexpired_stops [OF iteration.first b g k u]
  from t have "fst (deleteHandler demoScavenger demoQueue ?w) = handlerStatusDone" by simp
  moreover from t have "\<forall>i. 1 \<le> i \<and> i < length [expiredTask 1, liveTask 2] \<longrightarrow>
      (queueOf demoQueue, [expiredTask 1, liveTask 2] ! i) \<in> set (rows (snd (deleteHandler demoScavenger demoQueue ?w)))"
    by blast
  from this [rule_format, of 1]
  have "(queueOf demoQueue, liveTask 2) \<in> set (rows (snd (deleteHandler demoScavenger demoQueue ?w)))"
    by simp
  ultimately show ?thesis by simp
qed

lemma deleteLoop_empty:
  assumes "nProcessed < maxTasksPerJobFn s"
    and "getTasks info (taskBatchSizeFn s) w = (Inr [], w1)"
  shows "deleteLoop s info nProcessed nDeleted w =
         \<lparr>status = handlerStatusDone, nProcessedOf = nProcessed, nDeletedOf = nDeleted,
          errOf = None, worldOf = tryDeleteTaskList s info w1\<rparr>"
  using assms by (simp add: deleteLoop.simps [of s info nProcessed nDeleted w])

lemma deleteLoop_short:
  assumes "nProcessed < maxTasksPerJobFn s"
    and "getTasks info (taskBatchSizeFn s) w = (Inr tasks, w1)"
    and "tasks \<noteq> []"
    and "\<forall>t \<in> set tasks. isTaskExpired (now w1) t"
    and "completeTasks info (TaskID (last tasks)) (int (length tasks)) w1 = (Inr c, w2)"
    and "int (length tasks) < taskBatchSizeFn s"
  shows "deleteLoop s info nProcessed nDeleted w =
         \<lparr>status = handlerStatusDone, nProcessedOf = nProcessed + int (length tasks),
          nDeletedOf = nDeleted + int (length tasks),
          errOf = None, worldOf = tryDeleteTaskList s info w2\<rparr>"
  using assms scanBatch_expired [OF assms(4), of nProcessed]
  by (simp add: deleteLoop.simps [of s info nProcessed nDeleted w] Let_def)

lemma deleteLoop_full:
  assumes "nProcessed < maxTasksPerJobFn s"
    and "getTasks info (taskBatchSizeFn s) w = (Inr tasks, w1)"
    and "tasks \<noteq> []"
    and "\<forall>t \<in> set tasks. isTaskExpired (now w1) t"
    and "completeTasks info (TaskID (last tasks)) (int (length tasks)) w1 = (Inr c, w2)"
    and "\<not> int (length tasks) < taskBatchSizeFn s"
  shows "deleteLoop s info nProcessed nDeleted w =
         deleteLoop s info (nProcessed + int (length tasks)) (nDeleted + int (length tasks)) w2"
  using assms scanBatch_expired [OF assms(4), of nProcessed]
  by (simp add: deleteLoop.simps [of s info nProcessed nDeleted w] Let_def)

lemma deleteLoop_getTasks_error:
  assumes "nProcessed < maxTasksPerJobFn s"
    and "getTasks info (taskBatchSizeFn s) w = (Inl e, w1)"
  shows "deleteLoop s info nProcessed nDeleted w =
         \<lparr>status = handlerStatusErr, nProcessedOf = nProcessed, nDeletedOf = nDeleted,
          errOf = Some e, worldOf = w1\<rparr>"
  using assms by (simp add: deleteLoop.simps [of s info nProcessed nDeleted w])

lemma deleteLoop_completeTasks_error:
  assumes "nProcessed < maxTasksPerJobFn s"
    and "getTasks info (taskBatchSizeFn s) w = (Inr tasks, w1)"
    and "tasks \<noteq> []"
    and "\<forall>t \<in> set tasks. isTaskExpired (now w1) t"
    and "completeTasks info (TaskID (last tasks)) (int (length tasks)) w1 = (Inl e, w2)"
  shows "deleteLoop s info nProcessed nDeleted w =
         \<lparr>status = handlerStatusErr, nProcessedOf = nProcessed + int (length tasks),
          nDeletedOf = nDeleted, errOf = Some e, worldOf = w2\<rparr>"
  using assms scanBatch_expired [OF assms(4), of nProcessed]
  by (simp add: deleteLoop.simps [of s info nProcessed nDeleted w] Let_def)

lemma deleteLoop_budget:
  "\<not> nProcessed < maxTasksPerJobFn s \<Longrightarrow>
   deleteLoop s info nProcessed nDeleted w =
     \<lparr>status = handlerStatusDefer, nProcessedOf = nProcessed, nDeletedOf = nDeleted,
      errOf = None, worldOf = w\<rparr>"
  by (simp add: deleteLoop.simps [of s info nProcessed nDeleted w])

text \<open>
  Claim C8. When the batch fetched by an iteration of \<open>deleteHandler\<close> holds any
  unexpired task, the invocation ends there and the task rows are exactly those stored
  when the batch was fetched: every task of the batch, also an expired one in front of
  the unexpired one, is still stored, and no complete-tasks call is issued.
\<close>

theorem deleteHandler_unexpired_deletes_nothing:
  assumes "iteration s info w0 nProcessed nDeleted w"
    and "nProcessed < maxTasksPerJobFn s"
    and "getTasks info (taskBatchSizeFn s) w = (Inr tasks, w1)"
    and "\<exists>t \<in> set tasks. \<not> isTaskExpired (now w1) t"
  shows "rows (snd (deleteHandler s info w0)) = rows w \<and>
         (\<forall>t \<in> set tasks. (queueOf info, t) \<in> set (rows (snd (deleteHandler s info w0)))) \<and>
         filter isCompleteTasks (calls (snd (deleteHandler s info w0))) =
           filter isCompleteTasks (calls w)"
proof -
  have run: "deleteLoop s info 0 0 w0 =
      \<lparr>status = handlerStatusDone, nProcessedOf = fst (scanBatch (now w1) nProcessed tasks),
       nDeletedOf = nDeleted, errOf = None, worldOf = w1\<rparr>"
    using deleteLoop_unexpired [OF assms(2,3,4)] deleteLoop_iteration [OF assms(1)] by simp
  from getTasks_Inr [OF assms(3)] have g: "rows w1 = rows w"
    "calls w1 = calls w @ [GetTasks (queueOf info) (taskBatchSizeFn s)]"
    "tasks = take (nat (taskBatchSizeFn s)) (tasksOf (queueOf info) (rows w))" by simp_all
  have r: "rows (snd (deleteHandler s info w0)) = rows w"
    using run g(1) by (simp add: deleteHandler_def deleteHandlerLog_frame)
  have c: "calls (snd (deleteHandler s info w0)) = calls w @ [GetTasks (queueOf info) (taskBatchSizeFn s)]"
    using run g(2) by (simp add: deleteHandler_def deleteHandlerLog_frame)
  have m: "(queueOf info, t) \<in> set (rows w)" if "t \<in> set tasks" for t
  proof -
    from that g(3) have "t \<in> set (tasksOf (queueOf info) (rows w))"
      by (metis in_set_takeD)
    then show ?thesis by (simp add: tasksOf_mem)
  qed
  show ?thesis using r c m by simp
qed

theorem deleteHandler_unexpired_deletes_nothing_witness:
  "rows (snd (deleteHandler demoScavenger demoQueue (demoWorld [expiredTask 1, liveTask 2] []))) =
     [(queueOf demoQueue, expiredTask 1), (queueOf demoQueue, liveTask 2)]"
proof -
  let ?w = "demoWorld [expiredTask 1, liveTask 2] []"
  have g: "getTasks demoQueue (taskBatchSizeFn demoScavenger) ?w =
      (Inr [expiredTask 1, liveTask 2], ?w\<lparr>calls := [GetTasks (queueOf demoQueue) 2]\<rparr>)"
    using demo_getTasks [of "[expiredTask 1, liveTask 2]"] by (simp add: demoScavenger_def)
  have b: "0 < maxTasksPerJobFn demoScavenger" by (simp add: demoScavenger_def)
  have u: "\<exists>t \<in> set [expiredTask 1, liveTask 2].
             \<not> isTaskExpired (now (?w\<lparr>calls := [GetTasks (queueOf demoQueue) 2]\<rparr>)) t"
    by (simp add: isTaskExpired_def liveTask_def demoWorld_def)
  from deleteHandler_unexpired_deletes_nothing [OF iteration.first b g u]
  have "rows (snd (deleteHandler demoScavenger demoQueue ?w)) = rows ?w" by blast
  then show ?thesis by (simp add: demoWorld_def)
qed

text \<open>
  Claim C4. At any iteration of \<open>deleteHandler\<close> within budget: when the fetched batch
  is empty the invocation calls \<open>tryDeleteTaskList\<close> and returns Done; when the fetched
  batch is wholly expired, is completed without error and is shorter than the page
  size, the invocation likewise calls \<open>tryDeleteTaskList\<close> and returns Done. In both
  cases the attempt is this: if the name is unprefixed and the grace period has passed,
  exactly one delete-task-list call for this task list and the observed rangeID follows,
  and it is the last call of the invocation; otherwise no call follows. When that call
  meets no failure and a metadata row with this rangeID, the row is gone afterwards.
\<close>

theorem deleteHandler_drained:
  assumes "iteration s info w0 nProcessed nDeleted w"
    and "nProcessed < maxTasksPerJobFn s"
  shows "(getTasks info (taskBatchSizeFn s) w = (Inr [], w1) \<longrightarrow>
            deleteHandler s info w0 =
              (handlerStatusDone,
               deleteHandlerLog info nProcessed nDeleted None (tryDeleteTaskList s info w1)) \<and>
            calls (snd (deleteHandler s info w0)) =
              (if mayDeleteTaskList s info w1
               then calls w1 @ [DeleteTaskList (queueOf info) (RangeID info)] else calls w1) \<and>
            (mayDeleteTaskList s info w1 \<and> faults w1 = [] \<and>
             list_ex (\<lambda>m. queueOf m = queueOf info \<and> RangeID m = RangeID info) (taskLists w1) \<longrightarrow>
               taskLists (snd (deleteHandler s info w0)) =
                 filter (\<lambda>m. queueOf m \<noteq> queueOf info) (taskLists w1))) \<and>
         (getTasks info (taskBatchSizeFn s) w = (Inr tasks, w1') \<and> tasks \<noteq> [] \<and>
          (\<forall>t \<in> set tasks. isTaskExpired (now w1') t) \<and>
          completeTasks info (TaskID (last tasks)) (int (length tasks)) w1' = (Inr c, w2) \<and>
          int (length tasks) < taskBatchSizeFn s \<longrightarrow>
            deleteHandler s info w0 =
              (handlerStatusDone,
               deleteHandlerLog info (nProcessed + int (length tasks)) (nDeleted + int (length tasks))
                 None (tryDeleteTaskList s info w2)) \<and>
            calls (snd (deleteHandler s info w0)) =
              (if mayDeleteTaskList s info w2
               then calls w2 @ [DeleteTaskList (queueOf info) (RangeID info)] else calls w2) \<and>
            (mayDeleteTaskList s info w2 \<and> faults w2 = [] \<and>
             list_ex (\<lambda>m. queueOf m = queueOf info \<and> RangeID m = RangeID info) (taskLists w2) \<longrightarrow>
               taskLists (snd (deleteHandler s info w0)) =
                 filter (\<lambda>m. queueOf m \<noteq> queueOf info) (taskLists w2)))"
proof -
  have attempt: "calls (deleteHandlerLog info p d None (tryDeleteTaskList s info v)) =
        (if mayDeleteTaskList s info v
         then calls v @ [DeleteTaskList (queueOf info) (RangeID info)] else calls v) \<and>
      (mayDeleteTaskList s info v \<and> faults v = [] \<and>
       list_ex (\<lambda>m. queueOf m = queueOf info \<and> RangeID m = RangeID info) (taskLists v) \<longrightarrow>
         taskLists (deleteHandlerLog info p d None (tryDeleteTaskList s info v)) =
           filter (\<lambda>m. queueOf m \<noteq> queueOf info) (taskLists v))" for p d v
    using tryDeleteTaskList_attempt [of s info v] tryDeleteTaskList_no_attempt [of s info v]
    by (cases "mayDeleteTaskList s info v") (simp_all add: deleteHandlerLog_frame)
  show ?thesis
  proof (intro conjI impI)
    assume "getTasks info (taskBatchSizeFn s) w = (Inr [], w1)"
    from deleteLoop_empty [OF assms(2) this, of nDeleted] deleteLoop_iteration [OF assms(1)]
    have "deleteLoop s info 0 0 w0 =
           \<lparr>status = handlerStatusDone, nProcessedOf = nProcessed, nDeletedOf = nDeleted,
            errOf = None, worldOf = tryDeleteTaskList s info w1\<rparr>"
      by simp
    then have r: "deleteHandler s info w0 =
        (handlerStatusDone, deleteHandlerLog info nProcessed nDeleted None (tryDeleteTaskList s info w1))"
      by (simp add: deleteHandler_def)
    then show "deleteHandler s info w0 =
        (handlerStatusDone, deleteHandlerLog info nProcessed nDeleted None (tryDeleteTaskList s info w1))" .
    from r attempt [of nProcessed nDeleted w1]
    show "calls (snd (deleteHandler s info w0)) =
        (if mayDeleteTaskList s info w1
         then calls w1 @ [DeleteTaskList (queueOf info) (RangeID info)] else calls w1)"
      by simp
    assume "mayDeleteTaskList s info w1 \<and> faults w1 = [] \<and>
        list_ex (\<lambda>m. queueOf m = queueOf info \<and> RangeID m = RangeID info) (taskLists w1)"
    with r attempt [of nProcessed nDeleted w1]
    show "taskLists (snd (deleteHandler s info w0)) =
        filter (\<lambda>m. queueOf m \<noteq> queueOf info) (taskLists w1)"
      by simp
  next
    assume a: "getTasks info (taskBatchSizeFn s) w = (Inr tasks, w1') \<and> tasks \<noteq> [] \<and>
            (\<forall>t \<in> set tasks. isTaskExpired (now w1') t) \<and>
            completeTasks info (TaskID (last tasks)) (int (length tasks)) w1' = (Inr c, w2) \<and>
            int (length tasks) < taskBatchSizeFn s"
    from a have "deleteLoop s info nProcessed nDeleted w =
           \<lparr>status = handlerStatusDone, nProcessedOf = nProcessed + int (length tasks),
            nDeletedOf = nDeleted + int (length tasks),
            errOf = None, worldOf = tryDeleteTaskList s info w2\<rparr>"
      using deleteLoop_short [OF assms(2)] by blast
    with deleteLoop_iteration [OF assms(1)]
    have "deleteLoop s info 0 0 w0 =
           \<lparr>status = handlerStatusDone, nProcessedOf = nProcessed + int (length tasks),
            nDeletedOf = nDeleted + int (length tasks),
            errOf = None, worldOf = tryDeleteTaskList s info w2\<rparr>"
      by simp
    then have r: "deleteHandler s info w0 =
        (handlerStatusDone,
         deleteHandlerLog info (nProcessed + int (length tasks)) (nDeleted + int (length tasks))
           None (tryDeleteTaskList s info w2))"
      by (simp add: deleteHandler_def)
    then show "deleteHandler s info w0 =
        (handlerStatusDone,
         deleteHandlerLog info (nProcessed + int (length tasks)) (nDeleted + int (length tasks))
           None (tryDeleteTaskList s info w2))" .
    from r attempt [of "nProcessed + int (length tasks)" "nDeleted + int (length tasks)" w2]
    show "calls (snd (deleteHandler s info w0)) =
        (if mayDeleteTaskList s info w2
         then calls w2 @ [DeleteTaskList (queueOf info) (RangeID info)] else calls w2)"
      by simp
    assume "mayDeleteTaskList s info w2 \<and> faults w2 = [] \<and>
        list_ex (\<lambda>m. queueOf m = queueOf info \<and> RangeID m = RangeID info) (taskLists w2)"
    with r attempt [of "nProcessed + int (length tasks)" "nDeleted + int (length tasks)" w2]
    show "taskLists (snd (deleteHandler s info w0)) =
        filter (\<lambda>m. queueOf m \<noteq> queueOf info) (taskLists w2)"
      by simp
  qed
qed

lemma demo_completeTasks_one:
  "completeTasks demoQueue 1 1 ((demoWorld [expiredTask 1] [])\<lparr>calls := cs\<rparr>) =
     (Inr 1, (demoWorld [] [])\<lparr>calls := cs @ [CompleteTasks (queueOf demoQueue) 1 1]\<rparr>)"
  by (simp add: completeTasks_def nextFault_def demoWorld_def expiredTask_def Let_def)

lemma demo_mayDeleteTaskList:
  "mayDeleteTaskList demoScavenger demoQueue ((demoWorld ts fs)\<lparr>calls := cs\<rparr>)"
  by (simp add: mayDeleteTaskList_def demoScavenger_def demoQueue_def demoWorld_def HasPrefix_def
      scannerTaskListPrefix_def)

theorem deleteHandler_drained_witness:
  "fst (deleteHandler demoScavenger demoQueue (demoWorld [] [])) = handlerStatusDone \<and>
   calls (snd (deleteHandler demoScavenger demoQueue (demoWorld [] []))) =
     [GetTasks (queueOf demoQueue) 2, DeleteTaskList (queueOf demoQueue) 7] \<and>
   taskLists (snd (deleteHandler demoScavenger demoQueue (demoWorld [] []))) = [] \<and>
   fst (deleteHandler demoScavenger demoQueue (demoWorld [expiredTask 1] [])) = handlerStatusDone \<and>
   calls (snd (deleteHandler demoScavenger demoQueue (demoWorld [expiredTask 1] []))) =
     [GetTasks (queueOf demoQueue) 2, CompleteTasks (queueOf demoQueue) 1 1,
      DeleteTaskList (queueOf demoQueue) 7] \<and>
   taskLists (snd (deleteHandler demoScavenger demoQueue (demoWorld [expiredTask 1] []))) = []"
proof -
  have b: "0 < maxTasksPerJobFn demoScavenger" by (simp add: demoScavenger_def)
  let ?v1 = "(demoWorld [] [])\<lparr>calls := [GetTasks (queueOf demoQueue) 2]\<rparr>"
  have g: "getTasks demoQueue (taskBatchSizeFn demoScavenger) (demoWorld [] []) = (Inr [], ?v1)"
    using demo_getTasks [of "[]"] by (simp add: demoScavenger_def)
  have m1: "mayDeleteTaskList demoScavenger demoQueue ?v1 \<and> faults ?v1 = [] \<and>
      list_ex (\<lambda>m. queueOf m = queueOf demoQueue \<and> RangeID m = RangeID demoQueue) (taskLists ?v1)"
    by (intro conjI, rule demo_mayDeleteTaskList) (simp_all add: demoWorld_def)
  note t1 = deleteHandler_drained [OF iteration.first b, THEN conjunct1, rule_format, OF g]
  from t1 [THEN conjunct1]
  have s1: "fst (deleteHandler demoScavenger demoQueue (demoWorld [] [])) = handlerStatusDone"
    by simp
  have rid: "RangeID demoQueue = 7" by (simp add: demoQueue_def)
  from t1 [THEN conjunct2, THEN conjunct1] m1 rid have c1: "calls (snd (deleteHandler demoScavenger demoQueue (demoWorld [] []))) =
      [GetTasks (queueOf demoQueue) 2, DeleteTaskList (queueOf demoQueue) 7]"
    by simp
  from t1 [THEN conjunct2, THEN conjunct2, rule_format, OF m1]
  have l1: "taskLists (snd (deleteHandler demoScavenger demoQueue (demoWorld [] []))) = []"
    by (simp add: demoWorld_def)
  let ?w1 = "(demoWorld [expiredTask 1] [])\<lparr>calls := [GetTasks (queueOf demoQueue) 2]\<rparr>"
  let ?w2 = "(demoWorld [] [])\<lparr>calls := [GetTasks (queueOf demoQueue) 2,
                                         CompleteTasks (queueOf demoQueue) 1 1]\<rparr>"
  have g': "getTasks demoQueue (taskBatchSizeFn demoScavenger) (demoWorld [expiredTask 1] []) =
      (Inr [expiredTask 1], ?w1)"
    using demo_getTasks [of "[expiredTask 1]"] by (simp add: demoScavenger_def)
  have e: "\<forall>t \<in> set [expiredTask 1]. isTaskExpired (now ?w1) t"
    by (simp add: isTaskExpired_def expiredTask_def demoWorld_def)
  have c: "completeTasks demoQueue (TaskID (last [expiredTask 1])) (int (length [expiredTask 1])) ?w1 =
      (Inr 1, ?w2)"
    using demo_completeTasks_one [of "[GetTasks (queueOf demoQueue) 2]"] by (simp add: expiredTask_def)
  have sh: "int (length [expiredTask 1]) < taskBatchSizeFn demoScavenger"
    by (simp add: demoScavenger_def)
  have m2: "mayDeleteTaskList demoScavenger demoQueue ?w2 \<and> faults ?w2 = [] \<and>
      list_ex (\<lambda>m. queueOf m = queueOf demoQueue \<and> RangeID m = RangeID demoQueue) (taskLists ?w2)"
    by (intro conjI, rule demo_mayDeleteTaskList) (simp_all add: demoWorld_def)
  note t2 = deleteHandler_drained [OF iteration.first b, THEN conjunct2, rule_format,
      of demoQueue "demoWorld [expiredTask 1] []" "[expiredTask 1]" ?w1 1 ?w2,
      OF conjI [OF g' conjI [OF _ conjI [OF e conjI [OF c sh]]]]]
  have ne: "[expiredTask 1] \<noteq> []" by simp
  from t2 [OF ne, THEN conjunct1]
  have s2: "fst (deleteHandler demoScavenger demoQueue (demoWorld [expiredTask 1] [])) = handlerStatusDone"
    by simp
  from t2 [OF ne, THEN conjunct2, THEN conjunct1] m2 rid
  have c2: "calls (snd (deleteHandler demoScavenger demoQueue (demoWorld [expiredTask 1] []))) =
      [GetTasks (queueOf demoQueue) 2, CompleteTasks (queueOf demoQueue) 1 1,
       DeleteTaskList (queueOf demoQueue) 7]"
    by simp
  from t2 [OF ne, THEN conjunct2, THEN conjunct2, rule_format, OF m2]
  have l2: "taskLists (snd (deleteHandler demoScavenger demoQueue (demoWorld [expiredTask 1] []))) = []"
    by (simp add: demoWorld_def)
  from s1 c1 l1 s2 c2 l2 show ?thesis by simp
qed

text \<open>
  Claim C6, as stated, fails: \<open>deleteHandler\<close> does not tell the rate-limited error
  from any other. Here the fetch fails with \<open>ErrPersistenceLimitExceeded\<close> and the
  handler returns Err, not Defer.
\<close>

theorem deleteHandler_rate_limited_counterexample:
  "fst (getTasks demoQueue (taskBatchSizeFn demoScavenger)
          (demoWorld [expiredTask 1] [Some ErrPersistenceLimitExceeded])) =
     Inl ErrPersistenceLimitExceeded \<and>
   fst (deleteHandler demoScavenger demoQueue
          (demoWorld [expiredTask 1] [Some ErrPersistenceLimitExceeded])) = handlerStatusErr \<and>
   fst (deleteHandler demoScavenger demoQueue
          (demoWorld [expiredTask 1] [Some ErrPersistenceLimitExceeded])) \<noteq> handlerStatusDefer"
  by (simp add: deleteHandler_def deleteLoop.simps getTasks_def nextFault_def demoWorld_def
      demoScavenger_def)

text \<open>
  Claim C6, amended. At any iteration of \<open>deleteHandler\<close> within budget, a failure of
  the fetch, or of the completion of a wholly expired batch, makes the invocation
  return Err with that error handed to the deferred log, whatever the error is, the
  rate-limited one included.
\<close>

theorem deleteHandler_persistence_error:
  assumes "iteration s info w0 nProcessed nDeleted w"
    and "nProcessed < maxTasksPerJobFn s"
  shows "(getTasks info (taskBatchSizeFn s) w = (Inl e, w1) \<longrightarrow>
            deleteHandler s info w0 =
              (handlerStatusErr, deleteHandlerLog info nProcessed nDeleted (Some e) w1)) \<and>
         (getTasks info (taskBatchSizeFn s) w = (Inr tasks, w1') \<and> tasks \<noteq> [] \<and>
          (\<forall>t \<in> set tasks. isTaskExpired (now w1') t) \<and>
          completeTasks info (TaskID (last tasks)) (int (length tasks)) w1' = (Inl e', w2) \<longrightarrow>
            deleteHandler s info w0 =
              (handlerStatusErr,
               deleteHandlerLog info (nProcessed + int (length tasks)) nDeleted (Some e') w2))"
proof (intro conjI impI)
  assume "getTasks info (taskBatchSizeFn s) w = (Inl e, w1)"
  from deleteLoop_getTasks_error [OF assms(2) this, of nDeleted] deleteLoop_iteration [OF assms(1)]
  have "deleteLoop s info 0 0 w0 =
         \<lparr>status = handlerStatusErr, nProcessedOf = nProcessed, nDeletedOf = nDeleted,
          errOf = Some e, worldOf = w1\<rparr>"
    by simp
  then show "deleteHandler s info w0 =
      (handlerStatusErr, deleteHandlerLog info nProcessed nDeleted (Some e) w1)"
    by (simp add: deleteHandler_def)
next
  assume a: "getTasks info (taskBatchSizeFn s) w = (Inr tasks, w1') \<and> tasks \<noteq> [] \<and>
          (\<forall>t \<in> set tasks. isTaskExpired (now w1') t) \<and>
          completeTasks info (TaskID (last tasks)) (int (length tasks)) w1' = (Inl e', w2)"
  from a have "deleteLoop s info nProcessed nDeleted w =
         \<lparr>status = handlerStatusErr, nProcessedOf = nProcessed + int (length tasks),
          nDeletedOf = nDeleted, errOf = Some e', worldOf = w2\<rparr>"
    using deleteLoop_completeTasks_error [OF assms(2)] by blast
  with deleteLoop_iteration [OF assms(1)]
  have "deleteLoop s info 0 0 w0 =
         \<lparr>status = handlerStatusErr, nProcessedOf = nProcessed + int (length tasks),
          nDeletedOf = nDeleted, errOf = Some e', worldOf = w2\<rparr>"
    by simp
  then show "deleteHandler s info w0 =
      (handlerStatusErr,
       deleteHandlerLog info (nProcessed + int (length tasks)) nDeleted (Some e') w2)"
    by (simp add: deleteHandler_def)
qed

theorem deleteHandler_persistence_error_witness:
  "deleteHandler demoScavenger demoQueue (demoWorld [expiredTask 1] [Some ErrPersistenceLimitExceeded]) =
     (handlerStatusErr,
      deleteHandlerLog demoQueue 0 0 (Some ErrPersistenceLimitExceeded)
        ((demoWorld [expiredTask 1] [])\<lparr>calls := [GetTasks (queueOf demoQueue) 2]\<rparr>)) \<and>
   deleteHandler demoScavenger demoQueue
       (demoWorld [expiredTask 1] [None, Some ErrPersistenceLimitExceeded]) =
     (handlerStatusErr,
      deleteHandlerLog demoQueue 1 0 (Some ErrPersistenceLimitExceeded)
        ((demoWorld [expiredTask 1] [])\<lparr>calls := [GetTasks (queueOf demoQueue) 2,
                                                     CompleteTasks (queueOf demoQueue) 1 1]\<rparr>))"
proof
  have b: "0 < maxTasksPerJobFn demoScavenger" by (simp add: demoScavenger_def)
  let ?w = "demoWorld [expiredTask 1] [Some ErrPersistenceLimitExceeded]"
  let ?w1 = "(demoWorld [expiredTask 1] [])\<lparr>calls := [GetTasks (queueOf demoQueue) 2]\<rparr>"
  have g: "getTasks demoQueue (taskBatchSizeFn demoScavenger) ?w = (Inl ErrPersistenceLimitExceeded, ?w1)"
    by (simp add: getTasks_def nextFault_def demoWorld_def demoScavenger_def)
  from deleteHandler_persistence_error [OF iteration.first b, THEN conjunct1, rule_format, OF g]
  show "deleteHandler demoScavenger demoQueue ?w =
     (handlerStatusErr, deleteHandlerLog demoQueue 0 0 (Some ErrPersistenceLimitExceeded) ?w1)" .
  let ?v = "demoWorld [expiredTask 1] [None, Some ErrPersistenceLimitExceeded]"
  let ?v1 = "(demoWorld [expiredTask 1] [Some ErrPersistenceLimitExceeded])\<lparr>calls := [GetTasks (queueOf demoQueue) 2]\<rparr>"
  let ?v2 = "(demoWorld [expiredTask 1] [])\<lparr>calls := [GetTasks (queueOf demoQueue) 2,
                                                     CompleteTasks (queueOf demoQueue) 1 1]\<rparr>"
  have g': "getTasks demoQueue (taskBatchSizeFn demoScavenger) ?v = (Inr [expiredTask 1], ?v1)"
    by (simp add: getTasks_def nextFault_def demoWorld_def demoScavenger_def tasksOf_def)
  have e: "\<forall>t \<in> set [expiredTask 1]. isTaskExpired (now ?v1) t"
    by (simp add: isTaskExpired_def expiredTask_def demoWorld_def)
  have c: "completeTasks demoQueue (TaskID (last [expiredTask 1])) (int (length [expiredTask 1])) ?v1 =
      (Inl ErrPersistenceLimitExceeded, ?v2)"
    by (simp add: completeTasks_def nextFault_def demoWorld_def expiredTask_def)
  from deleteHandler_persistence_error [OF iteration.first b, THEN conjunct2, rule_format,
      of demoQueue ?v "[expiredTask 1]" ?v1 ErrPersistenceLimitExceeded ?v2] g' e c
  show "deleteHandler demoScavenger demoQueue ?v =
     (handlerStatusErr, deleteHandlerLog demoQueue 1 0 (Some ErrPersistenceLimitExceeded) ?v2)"
    by simp
qed

subsection \<open>The orphan handler\<close>

lemma completeTask_frame:
  "completeTask info tid w = (r, w1) \<Longrightarrow>
   r = (case faults w of [] \<Rightarrow> None | f # fs \<Rightarrow> f) \<and>
   faults w1 = tl (faults w) \<and>
   calls w1 = calls w @ [CompleteTask (queueOf info) tid] \<and>
   now w1 = now w \<and> taskLists w1 = taskLists w \<and> logs w1 = logs w \<and>
   taskNDeleted w1 = taskNDeleted w \<and> taskNProcessed w1 = taskNProcessed w \<and>
   tasklistNDeleted w1 = tasklistNDeleted w \<and>
   (r \<noteq> None \<longrightarrow> rows w1 = rows w)"
  unfolding completeTask_def
  by (auto split: prod.splits option.splits list.splits dest!: nextFault_frame)

lemma completeOrphanLoop_fails:
  "j < length ks \<Longrightarrow> faults w = replicate j None @ Some e # rest \<Longrightarrow>
   fst (completeOrphanLoop ks n w) =
     Some (if e = ErrPersistenceLimitExceeded then handlerStatusDefer else handlerStatusErr) \<and>
   fst (snd (completeOrphanLoop ks n w)) = n + int j \<and>
   faults (snd (snd (completeOrphanLoop ks n w))) = rest \<and>
   length (calls (snd (snd (completeOrphanLoop ks n w)))) = length (calls w) + Suc j"
proof (induction ks arbitrary: j n w)
  case Nil
  then show ?case by simp
next
  case (Cons k ks)
  let ?info = "\<lparr>DomainID = keyDomainID k, Name = TaskListName k,
                TaskType = keyTaskType k, RangeID = 0, LastUpdated = zeroTime\<rparr>"
  obtain r w1 where ct: "completeTask ?info (keyTaskID k) w = (r, w1)"
    by (cases "completeTask ?info (keyTaskID k) w")
  note fr = completeTask_frame [OF ct]
  show ?case
  proof (cases j)
    case 0
    with Cons.prems fr have "r = Some e" "faults w1 = rest" "length (calls w1) = length (calls w) + 1"
      by simp_all
    with ct 0 show ?thesis by simp
  next
    case (Suc j')
    with Cons.prems fr have r: "r = None" and f: "faults w1 = replicate j' None @ Some e # rest"
      and c: "length (calls w1) = length (calls w) + 1" and j': "j' < length ks"
      by simp_all
    let ?w1 = "w1\<lparr>taskNDeleted := taskNDeleted w1 + 1, taskNProcessed := taskNProcessed w1 + 1\<rparr>"
    have f': "faults ?w1 = replicate j' None @ Some e # rest" using f by simp
    from Cons.IH [OF j' f', of "n + 1"] ct r c Suc show ?thesis by simp
  qed
qed

lemma completeOrphanLoop_ok:
  "\<forall>f \<in> set (take (length ks) (faults w)). f = None \<Longrightarrow>
   fst (completeOrphanLoop ks n w) = None \<and>
   fst (snd (completeOrphanLoop ks n w)) = n + int (length ks) \<and>
   faults (snd (snd (completeOrphanLoop ks n w))) = drop (length ks) (faults w) \<and>
   length (calls (snd (snd (completeOrphanLoop ks n w)))) = length (calls w) + length ks \<and>
   taskNDeleted (snd (snd (completeOrphanLoop ks n w))) = taskNDeleted w + int (length ks) \<and>
   logs (snd (snd (completeOrphanLoop ks n w))) = logs w"
proof (induction ks arbitrary: n w)
  case Nil
  then show ?case by simp
next
  case (Cons k ks)
  let ?info = "\<lparr>DomainID = keyDomainID k, Name = TaskListName k,
                TaskType = keyTaskType k, RangeID = 0, LastUpdated = zeroTime\<rparr>"
  obtain r w1 where ct: "completeTask ?info (keyTaskID k) w = (r, w1)"
    by (cases "completeTask ?info (keyTaskID k) w")
  note fr = completeTask_frame [OF ct]
  from Cons.prems fr have r: "r = None"
    by (cases "faults w") simp_all
  let ?w1 = "w1\<lparr>taskNDeleted := taskNDeleted w1 + 1, taskNProcessed := taskNProcessed w1 + 1\<rparr>"
  from Cons.prems fr have "\<forall>f \<in> set (take (length ks) (faults ?w1)). f = None"
    by (cases "faults w") simp_all
  from Cons.IH [OF this, of "n + 1"] ct r fr show ?case
    by (simp add: drop_Suc)
qed

text \<open>
  Claim C5. When the orphan-task query fails, \<open>completeOrphanTasksHandler\<close> returns
  at once, with Defer for the rate-limited error and Err for any other error, and
  issues no further call. When the query succeeds and the deletion at position \<open>j\<close> of
  the page is the first to fail, the handler returns at once in the same way: Defer
  for the rate-limited error, Err for any other, with exactly \<open>j + 1\<close> deletions
  attempted.
\<close>

theorem completeOrphanTasksHandler_errors:
  "(getOrphanTasks (getOrphanTasksPageSizeFn s) w = (Inl e, w1) \<longrightarrow>
      fst (completeOrphanTasksHandler s w) =
        (if e = ErrPersistenceLimitExceeded then handlerStatusDefer else handlerStatusErr) \<and>
      calls (snd (completeOrphanTasksHandler s w)) = calls w1) \<and>
   (getOrphanTasks (getOrphanTasksPageSizeFn s) w = (Inr ks, w1') \<and> j < length ks \<and>
    faults w1' = replicate j None @ Some e' # rest \<longrightarrow>
      fst (completeOrphanTasksHandler s w) =
        (if e' = ErrPersistenceLimitExceeded then handlerStatusDefer else handlerStatusErr) \<and>
      faults (snd (completeOrphanTasksHandler s w)) = rest \<and>
      length (calls (snd (completeOrphanTasksHandler s w))) = length (calls w1') + Suc j)"
proof (intro conjI impI)
  assume "getOrphanTasks (getOrphanTasksPageSizeFn s) w = (Inl e, w1)"
  then show "fst (completeOrphanTasksHandler s w) =
        (if e = ErrPersistenceLimitExceeded then handlerStatusDefer else handlerStatusErr)"
    and "calls (snd (completeOrphanTasksHandler s w)) = calls w1"
    by (simp_all add: completeOrphanTasksHandler_def)
next
  assume a: "getOrphanTasks (getOrphanTasksPageSizeFn s) w = (Inr ks, w1') \<and> j < length ks \<and>
    faults w1' = replicate j None @ Some e' # rest"
  then have g: "getOrphanTasks (getOrphanTasksPageSizeFn s) w = (Inr ks, w1')"
    and j: "j < length ks" and f: "faults w1' = replicate j None @ Some e' # rest"
    by simp_all
  obtain st n w2 where l: "completeOrphanLoop ks 0 w1' = (st, n, w2)"
    by (cases "completeOrphanLoop ks 0 w1'")
  from completeOrphanLoop_fails [OF j f, of 0] l
  have st: "st = Some (if e' = ErrPersistenceLimitExceeded then handlerStatusDefer else handlerStatusErr)"
    and r: "faults w2 = rest" and c: "length (calls w2) = length (calls w1') + Suc j"
    by simp_all
  from g l st show "fst (completeOrphanTasksHandler s w) =
        (if e' = ErrPersistenceLimitExceeded then handlerStatusDefer else handlerStatusErr)"
    by (simp add: completeOrphanTasksHandler_def)
  from g l st r show "faults (snd (completeOrphanTasksHandler s w)) = rest"
    by (simp add: completeOrphanTasksHandler_def)
  from g l st c show "length (calls (snd (completeOrphanTasksHandler s w))) = length (calls w1') + Suc j"
    by (simp add: completeOrphanTasksHandler_def)
qed

lemma demo_getOrphanTasks:
  "getOrphanTasks 2 (orphanWorld ts (None # fs)) =
     (Inr (map toTaskKey (take 2 (map (Pair (queueOf demoQueue)) ts))),
      (orphanWorld ts fs)\<lparr>calls := [GetOrphanTasks 2]\<rparr>)"
  by (simp add: getOrphanTasks_def nextFault_def orphanWorld_def demoWorld_def isOrphan_def)

theorem completeOrphanTasksHandler_errors_witness:
  "fst (completeOrphanTasksHandler demoScavenger
          (orphanWorld [expiredTask 1] [Some ErrPersistenceLimitExceeded])) = handlerStatusDefer \<and>
   fst (completeOrphanTasksHandler demoScavenger
          (orphanWorld [expiredTask 1] [Some (ErrOther ''timeout'')])) = handlerStatusErr \<and>
   fst (completeOrphanTasksHandler demoScavenger
          (orphanWorld [expiredTask 1, expiredTask 2] [None, None, Some ErrPersistenceLimitExceeded])) =
     handlerStatusDefer \<and>
   fst (completeOrphanTasksHandler demoScavenger
          (orphanWorld [expiredTask 1, expiredTask 2] [None, None, Some (ErrOther ''timeout'')])) =
     handlerStatusErr"
proof -
  have q: "getOrphanTasks (getOrphanTasksPageSizeFn demoScavenger) (orphanWorld [expiredTask 1] [Some e]) =
      (Inl e, (orphanWorld [expiredTask 1] [])\<lparr>calls := [GetOrphanTasks 2]\<rparr>)" for e
    by (simp add: getOrphanTasks_def nextFault_def orphanWorld_def demoWorld_def demoScavenger_def)
  let ?ks = "map toTaskKey (take 2 (map (Pair (queueOf demoQueue)) [expiredTask 1, expiredTask 2]))"
  have g: "getOrphanTasks (getOrphanTasksPageSizeFn demoScavenger)
             (orphanWorld [expiredTask 1, expiredTask 2] [None, None, Some e]) =
      (Inr ?ks, (orphanWorld [expiredTask 1, expiredTask 2] [None, Some e])\<lparr>calls := [GetOrphanTasks 2]\<rparr>)"
    for e
    using demo_getOrphanTasks [of "[expiredTask 1, expiredTask 2]" "[None, Some e]"]
    by (simp add: demoScavenger_def)
  have j: "1 < length ?ks" by simp
  have f: "faults ((orphanWorld [expiredTask 1, expiredTask 2] [None, Some e])\<lparr>calls := [GetOrphanTasks 2]\<rparr>) =
      replicate 1 None @ Some e # []" for e
    by (simp add: orphanWorld_def demoWorld_def)
  note t1 = completeOrphanTasksHandler_errors [THEN conjunct1, rule_format, OF q, THEN conjunct1]
  note t2 = completeOrphanTasksHandler_errors [THEN conjunct2, rule_format, OF conjI [OF g conjI [OF j f]],
      THEN conjunct1]
  from t1 [of ErrPersistenceLimitExceeded] t1 [of "ErrOther ''timeout''"]
    t2 [of ErrPersistenceLimitExceeded] t2 [of "ErrOther ''timeout''"]
  show ?thesis by simp
qed

text \<open>
  Claim C10. When the orphan-task query succeeds and every deletion of the page
  succeeds, \<open>completeOrphanTasksHandler\<close> has attempted one deletion per key of the
  page and returns Done if the page is shorter than the page size, Defer otherwise.
\<close>

theorem completeOrphanTasksHandler_page:
  assumes "getOrphanTasks (getOrphanTasksPageSizeFn s) w = (Inr ks, w1)"
    and "\<forall>f \<in> set (take (length ks) (faults w1)). f = None"
  shows "fst (completeOrphanTasksHandler s w) =
           (if int (length ks) < getOrphanTasksPageSizeFn s then handlerStatusDone
            else handlerStatusDefer) \<and>
         length (calls (snd (completeOrphanTasksHandler s w))) = length (calls w1) + length ks \<and>
         taskNDeleted (snd (completeOrphanTasksHandler s w)) = taskNDeleted w1 + int (length ks)"
proof -
  obtain st n w2 where l: "completeOrphanLoop ks 0 w1 = (st, n, w2)"
    by (cases "completeOrphanLoop ks 0 w1")
  from completeOrphanLoop_ok [OF assms(2), of 0] l
  have "st = None" "length (calls w2) = length (calls w1) + length ks"
    "taskNDeleted w2 = taskNDeleted w1 + int (length ks)"
    by simp_all
  with assms(1) l show ?thesis
    by (simp add: completeOrphanTasksHandler_def Let_def)
qed


theorem completeOrphanTasksHandler_page_witness:
  "fst (completeOrphanTasksHandler demoScavenger (orphanWorld [expiredTask 1] [None])) =
     handlerStatusDone \<and>
   fst (completeOrphanTasksHandler demoScavenger (orphanWorld [expiredTask 1, expiredTask 2] [None])) =
     handlerStatusDefer"
proof -
  have g: "getOrphanTasks (getOrphanTasksPageSizeFn demoScavenger) (orphanWorld ts [None]) =
      (Inr (map toTaskKey (take 2 (map (Pair (queueOf demoQueue)) ts))),
       (orphanWorld ts [])\<lparr>calls := [GetOrphanTasks 2]\<rparr>)" for ts
    using demo_getOrphanTasks [of ts "[]"] by (simp add: demoScavenger_def)
  have f: "\<forall>f \<in> set (take (length (map toTaskKey (take 2 (map (Pair (queueOf demoQueue)) ts))))
             (faults ((orphanWorld ts [])\<lparr>calls := [GetOrphanTasks 2]\<rparr>))). f = None" for ts
    by (simp add: orphanWorld_def demoWorld_def)
  note t = completeOrphanTasksHandler_page [OF g f, THEN conjunct1]
  from t [of "[expiredTask 1]"] t [of "[expiredTask 1, expiredTask 2]"]
  show ?thesis by (simp add: demoScavenger_def)
qed

subsection \<open>Whole runs of the delete handler\<close>

lemma removeUpTo_drop:
  "\<forall>t \<in> set (take m (tasksOf k rs)). TaskID t \<le> tid \<Longrightarrow>
   tasksOf k (removeUpTo k tid m rs) = drop m (tasksOf k rs)"
  by (induction k tid m rs rule: removeUpTo.induct) (auto simp: tasksOf_Cons)

lemma removeUpTo_keeps:
  "\<forall>t \<in> set (take m (tasksOf k rs)). TaskID t \<le> tid \<Longrightarrow>
   r \<in> set rs \<Longrightarrow> r \<notin> Pair k ` set (take m (tasksOf k rs)) \<Longrightarrow>
   r \<in> set (removeUpTo k tid m rs)"
  by (induction k tid m rs rule: removeUpTo.induct) (auto simp: tasksOf_Cons split: if_splits)

lemma sorted_le_last:
  "sorted (map f xs) \<Longrightarrow> x \<in> set xs \<Longrightarrow> (f x :: int) \<le> f (last xs)"
proof (induction xs)
  case Nil
  then show ?case by simp
next
  case (Cons a xs)
  then show ?case by (cases "xs = []") auto
qed

text \<open>
  A rule for the loop of \<open>deleteHandler\<close>: one case for each way an iteration can go.
\<close>

lemma deleteLoop_rule [case_names budget getTasksError empty unexpired completeTasksError short full]:
  assumes "\<And>nP nD w. \<not> nP < maxTasksPerJobFn s \<Longrightarrow> Q nP nD w"
    and "\<And>nP nD w e w1. nP < maxTasksPerJobFn s \<Longrightarrow>
           getTasks info (taskBatchSizeFn s) w = (Inl e, w1) \<Longrightarrow> Q nP nD w"
    and "\<And>nP nD w w1. nP < maxTasksPerJobFn s \<Longrightarrow>
           getTasks info (taskBatchSizeFn s) w = (Inr [], w1) \<Longrightarrow> Q nP nD w"
    and "\<And>nP nD w tasks w1. nP < maxTasksPerJobFn s \<Longrightarrow>
           getTasks info (taskBatchSizeFn s) w = (Inr tasks, w1) \<Longrightarrow>
           \<exists>t \<in> set tasks. \<not> isTaskExpired (now w1) t \<Longrightarrow> Q nP nD w"
    and "\<And>nP nD w tasks w1 e w2. nP < maxTasksPerJobFn s \<Longrightarrow>
           getTasks info (taskBatchSizeFn s) w = (Inr tasks, w1) \<Longrightarrow> tasks \<noteq> [] \<Longrightarrow>
           \<forall>t \<in> set tasks. isTaskExpired (now w1) t \<Longrightarrow>
           completeTasks info (TaskID (last tasks)) (int (length tasks)) w1 = (Inl e, w2) \<Longrightarrow>
           Q nP nD w"
    and "\<And>nP nD w tasks w1 c w2. nP < maxTasksPerJobFn s \<Longrightarrow>
           getTasks info (taskBatchSizeFn s) w = (Inr tasks, w1) \<Longrightarrow> tasks \<noteq> [] \<Longrightarrow>
           \<forall>t \<in> set tasks. isTaskExpired (now w1) t \<Longrightarrow>
           completeTasks info (TaskID (last tasks)) (int (length tasks)) w1 = (Inr c, w2) \<Longrightarrow>
           int (length tasks) < taskBatchSizeFn s \<Longrightarrow> Q nP nD w"
    and "\<And>nP nD w tasks w1 c w2. nP < maxTasksPerJobFn s \<Longrightarrow>
           getTasks info (taskBatchSizeFn s) w = (Inr tasks, w1) \<Longrightarrow> tasks \<noteq> [] \<Longrightarrow>
           \<forall>t \<in> set tasks. isTaskExpired (now w1) t \<Longrightarrow>
           completeTasks info (TaskID (last tasks)) (int (length tasks)) w1 = (Inr c, w2) \<Longrightarrow>
           \<not> int (length tasks) < taskBatchSizeFn s \<Longrightarrow>
           Q (nP + int (length tasks)) (nD + int (length tasks)) w2 \<Longrightarrow> Q nP nD w"
  shows "Q nP nD w"
proof (induction "nat (maxTasksPerJobFn s - nP)" arbitrary: nP nD w rule: less_induct)
  case (less nP nD w)
  show ?case
  proof (cases "nP < maxTasksPerJobFn s")
    case False
    then show ?thesis by (rule assms(1))
  next
    case True
    obtain r w1 where g: "getTasks info (taskBatchSizeFn s) w = (r, w1)"
      by (cases "getTasks info (taskBatchSizeFn s) w")
    show ?thesis
    proof (cases r)
      case (Inl e)
      with g True show ?thesis by (auto intro: assms(2))
    next
      case (Inr tasks)
      with g have g': "getTasks info (taskBatchSizeFn s) w = (Inr tasks, w1)" by simp
      show ?thesis
      proof (cases "tasks = []")
        case True
        with g' \<open>nP < maxTasksPerJobFn s\<close> show ?thesis by (auto intro: assms(3))
      next
        case ne: False
        show ?thesis
        proof (cases "\<exists>t \<in> set tasks. \<not> isTaskExpired (now w1) t")
          case True
          from assms(4) [OF \<open>nP < maxTasksPerJobFn s\<close> g' True] show ?thesis .
        next
          case False
          then have ex: "\<forall>t \<in> set tasks. isTaskExpired (now w1) t" by blast
          obtain r2 w2 where c: "completeTasks info (TaskID (last tasks)) (int (length tasks)) w1 = (r2, w2)"
            by (cases "completeTasks info (TaskID (last tasks)) (int (length tasks)) w1")
          show ?thesis
          proof (cases r2)
            case (Inl e)
            with c have "completeTasks info (TaskID (last tasks)) (int (length tasks)) w1 = (Inl e, w2)"
              by simp
            from assms(5) [OF \<open>nP < maxTasksPerJobFn s\<close> g' ne ex this] show ?thesis .
          next
            case (Inr n)
            with c have c': "completeTasks info (TaskID (last tasks)) (int (length tasks)) w1 = (Inr n, w2)"
              by simp
            show ?thesis
            proof (cases "int (length tasks) < taskBatchSizeFn s")
              case True
              from assms(6) [OF \<open>nP < maxTasksPerJobFn s\<close> g' ne ex c' True] show ?thesis .
            next
              case False
              from ne have "0 < length tasks" by simp
              with \<open>nP < maxTasksPerJobFn s\<close>
              have "nat (maxTasksPerJobFn s - (nP + int (length tasks))) < nat (maxTasksPerJobFn s - nP)"
                by simp
              from less [OF this]
              have "Q (nP + int (length tasks)) (nD + int (length tasks)) w2" .
              from assms(7) [OF \<open>nP < maxTasksPerJobFn s\<close> g' ne ex c' False this] show ?thesis .
            qed
          qed
        qed
      qed
    qed
  qed
qed


lemma batch_completed:
  assumes g: "getTasks info bs w = (Inr tasks, w1)"
    and ne: "tasks \<noteq> []"
    and c: "completeTasks info (TaskID (last tasks)) (int (length tasks)) w1 = (Inr n, w2)"
    and srt: "sortedQueue (queueOf info) w"
  shows "tasksOf (queueOf info) (rows w2) = drop (length tasks) (tasksOf (queueOf info) (rows w))"
    and "sortedQueue (queueOf info) w2"
    and "\<And>r. r \<in> set (rows w) \<Longrightarrow> r \<notin> Pair (queueOf info) ` set tasks \<Longrightarrow> r \<in> set (rows w2)"
    and "tasks = take (length tasks) (tasksOf (queueOf info) (rows w))"
proof -
  let ?k = "queueOf info"
  let ?ts = "tasksOf ?k (rows w)"
  from getTasks_Inr [OF g] have t: "tasks = take (nat bs) ?ts" and r1: "rows w1 = rows w"
    by simp_all
  have "take (length (take (nat bs) ?ts)) ?ts = take (nat bs) ?ts"
    by (simp add: min_def)
  with t show tk: "tasks = take (length tasks) ?ts"
    by simp
  from completeTasks_Inr [OF c] r1
  have r2: "rows w2 = removeUpTo ?k (TaskID (last tasks)) (length tasks) (rows w)"
    by simp
  from srt have "sorted (map TaskID ?ts)" by (simp add: sortedQueue_def)
  then have "sorted (take (nat bs) (map TaskID ?ts))"
    by (rule sorted_wrt_take)
  then have "sorted (map TaskID (take (nat bs) ?ts))"
    by (simp add: take_map)
  with t have st: "sorted (map TaskID tasks)" by simp
  have le: "\<forall>t \<in> set (take (length tasks) ?ts). TaskID t \<le> TaskID (last tasks)"
    using sorted_le_last [OF st] tk by auto
  from removeUpTo_drop [OF le] r2
  show d: "tasksOf ?k (rows w2) = drop (length tasks) ?ts" by simp
  from srt have "sorted (drop (length tasks) (map TaskID ?ts))"
    unfolding sortedQueue_def by (rule sorted_wrt_drop)
  with d show "sortedQueue ?k w2"
    by (simp add: sortedQueue_def drop_map)
  fix r
  assume "r \<in> set (rows w)" "r \<notin> Pair ?k ` set tasks"
  with removeUpTo_keeps [OF le, of r] tk r2 show "r \<in> set (rows w2)" by simp
qed

lemma deleteLoop_keeps_unexpired:
  "sortedQueue (queueOf info) w \<longrightarrow> r \<in> set (rows w) \<longrightarrow> \<not> isTaskExpired (now w) (snd r) \<longrightarrow>
   r \<in> set (rows (worldOf (deleteLoop s info nP nD w)))"
proof (induction nP nD w rule: deleteLoop_rule [of s _ info])
  case (budget nP nD w)
  then show ?case by (simp add: deleteLoop_budget)
next
  case (getTasksError nP nD w e w1)
  from getTasks_Inl [OF getTasksError(2)] have "rows w1 = rows w" by simp
  with getTasksError show ?case by (simp add: deleteLoop_getTasks_error)
next
  case (empty nP nD w w1)
  from getTasks_Inr [OF empty(2)] have "rows w1 = rows w" by simp
  with empty show ?case by (simp add: deleteLoop_empty tryDeleteTaskList_frame)
next
  case (unexpired nP nD w tasks w1)
  from getTasks_Inr [OF unexpired(2)] have "rows w1 = rows w" by simp
  with unexpired show ?case by (simp add: deleteLoop_unexpired)
next
  case (completeTasksError nP nD w tasks w1 e w2)
  from getTasks_Inr [OF completeTasksError(2)] completeTasks_Inl [OF completeTasksError(5)]
  have "rows w2 = rows w" by simp
  with completeTasksError show ?case by (simp add: deleteLoop_completeTasks_error)
next
  case (short nP nD w tasks w1 c w2)
  show ?case
  proof (intro impI)
    assume srt: "sortedQueue (queueOf info) w" and r: "r \<in> set (rows w)"
      and u: "\<not> isTaskExpired (now w) (snd r)"
    from getTasks_Inr [OF short(2)] have n: "now w1 = now w" by simp
    with short(4) u have "r \<notin> Pair (queueOf info) ` set tasks" by auto
    from batch_completed(3) [OF short(2,3,5) srt r this] have "r \<in> set (rows w2)" .
    with short show "r \<in> set (rows (worldOf (deleteLoop s info nP nD w)))"
      by (simp add: deleteLoop_short tryDeleteTaskList_frame)
  qed
next
  case (full nP nD w tasks w1 c w2)
  show ?case
  proof (intro impI)
    assume srt: "sortedQueue (queueOf info) w" and r: "r \<in> set (rows w)"
      and u: "\<not> isTaskExpired (now w) (snd r)"
    from getTasks_Inr [OF full(2)] completeTasks_Inr [OF full(5)]
    have n: "now w1 = now w" "now w2 = now w" by simp_all
    with full(4) u have "r \<notin> Pair (queueOf info) ` set tasks" by auto
    from batch_completed(3) [OF full(2,3,5) srt r this] have r2: "r \<in> set (rows w2)" .
    from batch_completed(2) [OF full(2,3,5) srt] have s2: "sortedQueue (queueOf info) w2" .
    from full(7) r2 s2 u n
    have "r \<in> set (rows (worldOf (deleteLoop s info (nP + int (length tasks)) (nD + int (length tasks)) w2)))"
      by simp
    with deleteLoop_full [OF full(1,2,3,4,5,6)]
    show "r \<in> set (rows (worldOf (deleteLoop s info nP nD w)))" by simp
  qed
qed


text \<open>
  Claim C7. A task whose expiry is zero, be it \<open>time.Unix(0, 0)\<close> or the zero
  \<open>time.Time\<close>, is not expired at any current time; and, the rows of the scanned task
  list being stored in taskID order, \<open>deleteHandler\<close> leaves every stored row of such a
  task in place.
\<close>

theorem zero_expiry_never_expired:
  assumes "Expiry t = 0 \<or> Expiry t = zeroTime"
  shows "\<not> isTaskExpired tnow t \<and>
         (sortedQueue (queueOf info) w \<and> (k, t) \<in> set (rows w) \<longrightarrow>
            (k, t) \<in> set (rows (snd (deleteHandler s info w))))"
proof -
  from assms have u: "\<not> isTaskExpired tnow t" for tnow
    by (auto simp: isTaskExpired_def zeroTime_def)
  have "(k, t) \<in> set (rows (worldOf (deleteLoop s info 0 0 w)))"
    if "sortedQueue (queueOf info) w" "(k, t) \<in> set (rows w)"
    using deleteLoop_keeps_unexpired [of info w "(k, t)" s 0 0] that u by simp
  with u show ?thesis
    by (simp add: deleteHandler_def Let_def deleteHandlerLog_frame)
qed

lemma demo_sortedQueue:
  "sorted (map TaskID ts) \<Longrightarrow> sortedQueue (queueOf demoQueue) (demoWorld ts fs)"
  by (simp add: sortedQueue_def demoWorld_def)

theorem zero_expiry_never_expired_witness:
  "\<not> isTaskExpired 1000 (eternalTask 2) \<and>
   (queueOf demoQueue, eternalTask 2) \<in>
     set (rows (snd (deleteHandler demoScavenger demoQueue (demoWorld [expiredTask 1, eternalTask 2] []))))"
proof -
  have z: "Expiry (eternalTask 2) = 0 \<or> Expiry (eternalTask 2) = zeroTime"
    by (simp add: eternalTask_def)
  have s: "sortedQueue (queueOf demoQueue) (demoWorld [expiredTask 1, eternalTask 2] [])"
    by (rule demo_sortedQueue) (simp add: expiredTask_def eternalTask_def)
  have m: "(queueOf demoQueue, eternalTask 2) \<in> set (rows (demoWorld [expiredTask 1, eternalTask 2] []))"
    by (simp add: demoWorld_def)
  from zero_expiry_never_expired [OF z, of 1000 demoQueue "demoWorld [expiredTask 1, eternalTask 2] []"
      "queueOf demoQueue" demoScavenger] s m
  show ?thesis by simp
qed

lemma take_Nil_pos: "take (nat b) xs = [] \<Longrightarrow> 0 < b \<Longrightarrow> xs = []"
  by (cases xs) auto

lemma take_short_all: "int (length (take (nat b) xs)) < b \<Longrightarrow> take (nat b) xs = xs"
proof -
  assume "int (length (take (nat b) xs)) < b"
  then have "int (min (length xs) (nat b)) < b" by simp
  then have "length xs \<le> nat b" by linarith
  then show ?thesis by simp
qed

lemma deleteLoop_delete_guard:
  "sortedQueue (queueOf info) w \<longrightarrow> 0 < taskBatchSizeFn s \<longrightarrow>
   (deleteAttempted w (worldOf (deleteLoop s info nP nD w)) \<longrightarrow>
      tasksOf (queueOf info) (rows (worldOf (deleteLoop s info nP nD w))) = [] \<and>
      \<not> HasPrefix (Name info) scannerTaskListPrefix \<and>
      taskListGracePeriod s \<le> now w - LastUpdated info) \<and>
   (\<not> deleteAttempted w (worldOf (deleteLoop s info nP nD w)) \<longrightarrow>
      taskLists (worldOf (deleteLoop s info nP nD w)) = taskLists w) \<and>
   now (worldOf (deleteLoop s info nP nD w)) = now w"
proof (induction nP nD w rule: deleteLoop_rule [of s _ info])
  case (budget nP nD w)
  then show ?case by (simp add: deleteLoop_budget deleteAttempted_def)
next
  case (getTasksError nP nD w e w1)
  from getTasks_Inl [OF getTasksError(2)] getTasksError(1)
  show ?case by (simp add: deleteLoop_getTasks_error [OF getTasksError(1,2)] deleteAttempted_def)
next
  case (empty nP nD w w1)
  note g = getTasks_Inr [OF empty(2)]
  show ?case
  proof (intro impI)
    assume "sortedQueue (queueOf info) w" and pos: "0 < taskBatchSizeFn s"
    from g pos have e: "tasksOf (queueOf info) (rows w) = []"
      using take_Nil_pos [of "taskBatchSizeFn s" "tasksOf (queueOf info) (rows w)"] by simp
    show "(deleteAttempted w (worldOf (deleteLoop s info nP nD w)) \<longrightarrow>
      tasksOf (queueOf info) (rows (worldOf (deleteLoop s info nP nD w))) = [] \<and>
      \<not> HasPrefix (Name info) scannerTaskListPrefix \<and>
      taskListGracePeriod s \<le> now w - LastUpdated info) \<and>
     (\<not> deleteAttempted w (worldOf (deleteLoop s info nP nD w)) \<longrightarrow>
      taskLists (worldOf (deleteLoop s info nP nD w)) = taskLists w) \<and>
     now (worldOf (deleteLoop s info nP nD w)) = now w"
    proof (cases "HasPrefix (Name info) scannerTaskListPrefix \<or>
                  now w1 - LastUpdated info < taskListGracePeriod s")
      case True
      from tryDeleteTaskList_skipped [OF True] g
      show ?thesis by (simp add: deleteLoop_empty [OF empty(1,2)] deleteAttempted_def)
    next
      case False
      with g e show ?thesis
        by (simp add: deleteLoop_empty [OF empty(1,2)] deleteAttempted_def tryDeleteTaskList_calls
            tryDeleteTaskList_frame)
    qed
  qed
next
  case (unexpired nP nD w tasks w1)
  from getTasks_Inr [OF unexpired(2)]
  show ?case by (simp add: deleteLoop_unexpired [OF unexpired(1,2,3)] deleteAttempted_def)
next
  case (completeTasksError nP nD w tasks w1 e w2)
  from getTasks_Inr [OF completeTasksError(2)] completeTasks_Inl [OF completeTasksError(5)]
  show ?case
    by (simp add: deleteLoop_completeTasks_error [OF completeTasksError(1,2,3,4,5)] deleteAttempted_def)
next
  case (short nP nD w tasks w1 c w2)
  note g = getTasks_Inr [OF short(2)] and ct = completeTasks_Inr [OF short(5)]
  show ?case
  proof (intro impI)
    assume srt: "sortedQueue (queueOf info) w" and pos: "0 < taskBatchSizeFn s"
    from g short(6) have "tasks = tasksOf (queueOf info) (rows w)"
      using take_short_all [of "taskBatchSizeFn s" "tasksOf (queueOf info) (rows w)"] by simp
    with batch_completed(1) [OF short(2,3,5) srt]
    have e: "tasksOf (queueOf info) (rows w2) = []" by simp
    from g ct have fr: "now w2 = now w" "taskLists w2 = taskLists w"
      "filter isDeleteTaskList (calls w2) = filter isDeleteTaskList (calls w)" by simp_all
    show "(deleteAttempted w (worldOf (deleteLoop s info nP nD w)) \<longrightarrow>
      tasksOf (queueOf info) (rows (worldOf (deleteLoop s info nP nD w))) = [] \<and>
      \<not> HasPrefix (Name info) scannerTaskListPrefix \<and>
      taskListGracePeriod s \<le> now w - LastUpdated info) \<and>
     (\<not> deleteAttempted w (worldOf (deleteLoop s info nP nD w)) \<longrightarrow>
      taskLists (worldOf (deleteLoop s info nP nD w)) = taskLists w) \<and>
     now (worldOf (deleteLoop s info nP nD w)) = now w"
    proof (cases "HasPrefix (Name info) scannerTaskListPrefix \<or>
                  now w2 - LastUpdated info < taskListGracePeriod s")
      case True
      from tryDeleteTaskList_skipped [OF True] fr
      show ?thesis by (simp add: deleteLoop_short [OF short(1,2,3,4,5,6)] deleteAttempted_def)
    next
      case False
      with fr e show ?thesis
        by (simp add: deleteLoop_short [OF short(1,2,3,4,5,6)] deleteAttempted_def
            tryDeleteTaskList_calls tryDeleteTaskList_frame)
    qed
  qed
next
  case (full nP nD w tasks w1 c w2)
  note g = getTasks_Inr [OF full(2)] and ct = completeTasks_Inr [OF full(5)]
  show ?case
  proof (intro impI)
    assume srt: "sortedQueue (queueOf info) w" and pos: "0 < taskBatchSizeFn s"
    from g ct have fr: "now w2 = now w" "taskLists w2 = taskLists w"
      "filter isDeleteTaskList (calls w2) = filter isDeleteTaskList (calls w)" by simp_all
    from batch_completed(2) [OF full(2,3,5) srt] have s2: "sortedQueue (queueOf info) w2" .
    from full(7) s2 pos fr
    show "(deleteAttempted w (worldOf (deleteLoop s info nP nD w)) \<longrightarrow>
      tasksOf (queueOf info) (rows (worldOf (deleteLoop s info nP nD w))) = [] \<and>
      \<not> HasPrefix (Name info) scannerTaskListPrefix \<and>
      taskListGracePeriod s \<le> now w - LastUpdated info) \<and>
     (\<not> deleteAttempted w (worldOf (deleteLoop s info nP nD w)) \<longrightarrow>
      taskLists (worldOf (deleteLoop s info nP nD w)) = taskLists w) \<and>
     now (worldOf (deleteLoop s info nP nD w)) = now w"
      by (simp add: deleteLoop_full [OF full(1,2,3,4,5,6)] deleteAttempted_def)
  qed
qed

text \<open>
  Claim C2, as stated, fails where the page size is not positive: \<open>deleteHandler\<close>
  judges the task list empty from the fetched batch alone, and with
  \<open>taskBatchSize = 0\<close> the batch is empty whatever is stored. On a task list that
  holds one unexpired task, with an unprefixed name and the grace period passed, the
  invocation issues the delete-task-list call right after the fetch; the metadata row
  is removed while the task row is still stored.
\<close>

theorem metadata_delete_guard_counterexample:
  "deleteAttempted (demoWorld [liveTask 1] [])
     (snd (deleteHandler (demoScavenger\<lparr>taskBatchSizeFn := 0\<rparr>) demoQueue (demoWorld [liveTask 1] []))) \<and>
   calls (snd (deleteHandler (demoScavenger\<lparr>taskBatchSizeFn := 0\<rparr>) demoQueue
                 (demoWorld [liveTask 1] []))) =
     [GetTasks (queueOf demoQueue) 0, DeleteTaskList (queueOf demoQueue) 7] \<and>
   taskLists (demoWorld [liveTask 1] []) = [demoQueue] \<and>
   taskLists (snd (deleteHandler (demoScavenger\<lparr>taskBatchSizeFn := 0\<rparr>) demoQueue
                     (demoWorld [liveTask 1] []))) = [] \<and>
   tasksOf (queueOf demoQueue)
     (rows (snd (deleteHandler (demoScavenger\<lparr>taskBatchSizeFn := 0\<rparr>) demoQueue
                   (demoWorld [liveTask 1] [])))) = [liveTask 1]"
  by (simp add: deleteAttempted_def demo_eval)

text \<open>
  Claim C2, amended. With a positive page size, and the rows of the scanned task list
  stored in taskID order (the order in which the persistence contract returns them), an
  invocation of \<open>deleteHandler\<close> asks for the deletion of the task-list metadata only
  if the task list holds no task at that point, its name does not carry the scanner
  prefix and the time since \<open>LastUpdated\<close> is at least the grace period. If one of
  these fails, no deletion is asked for and the metadata rows are as before.
  \<open>tryDeleteTaskList\<close> itself does nothing at all on a prefixed name or within the
  grace period.
\<close>

theorem metadata_delete_guard:
  assumes "sortedQueue (queueOf info) w"
    and "0 < taskBatchSizeFn s"
  shows "(deleteAttempted w (snd (deleteHandler s info w)) \<longrightarrow>
            tasksOf (queueOf info) (rows (snd (deleteHandler s info w))) = [] \<and>
            \<not> HasPrefix (Name info) scannerTaskListPrefix \<and>
            taskListGracePeriod s \<le> now (snd (deleteHandler s info w)) - LastUpdated info) \<and>
         (tasksOf (queueOf info) (rows (snd (deleteHandler s info w))) \<noteq> [] \<or>
          HasPrefix (Name info) scannerTaskListPrefix \<or>
          now (snd (deleteHandler s info w)) - LastUpdated info < taskListGracePeriod s \<longrightarrow>
            \<not> deleteAttempted w (snd (deleteHandler s info w)) \<and>
            taskLists (snd (deleteHandler s info w)) = taskLists w) \<and>
         (HasPrefix (Name info) scannerTaskListPrefix \<or>
          now w' - LastUpdated info < taskListGracePeriod s \<longrightarrow>
            tryDeleteTaskList s info w' = w')"
proof -
  let ?r = "deleteLoop s info 0 0 w"
  have w: "snd (deleteHandler s info w) =
      deleteHandlerLog info (nProcessedOf ?r) (nDeletedOf ?r) (errOf ?r) (worldOf ?r)"
    by (simp add: deleteHandler_def Let_def)
  have a: "deleteAttempted w (snd (deleteHandler s info w)) = deleteAttempted w (worldOf ?r)"
    by (simp add: w deleteAttempted_def deleteHandlerLog_frame)
  from deleteLoop_delete_guard [of info w s 0 0] assms
  have g: "deleteAttempted w (worldOf ?r) \<longrightarrow>
      tasksOf (queueOf info) (rows (worldOf ?r)) = [] \<and>
      \<not> HasPrefix (Name info) scannerTaskListPrefix \<and>
      taskListGracePeriod s \<le> now w - LastUpdated info"
    and k: "\<not> deleteAttempted w (worldOf ?r) \<longrightarrow> taskLists (worldOf ?r) = taskLists w"
    and n: "now (worldOf ?r) = now w"
    by simp_all
  from g k n a show ?thesis
    by (auto simp: w deleteHandlerLog_frame tryDeleteTaskList_skipped)
qed

theorem metadata_delete_guard_witness:
  "deleteAttempted (demoWorld [] []) (snd (deleteHandler demoScavenger demoQueue (demoWorld [] []))) \<and>
   taskLists (snd (deleteHandler demoScavenger demoQueue (demoWorld [] []))) = [] \<and>
   tasksOf (queueOf demoQueue) (rows (snd (deleteHandler demoScavenger demoQueue (demoWorld [] [])))) = [] \<and>
   \<not> HasPrefix (Name demoQueue) scannerTaskListPrefix \<and>
   taskLists (snd (deleteHandler demoScavenger demoQueue (demoWorld [liveTask 1] []))) = [demoQueue]"
proof -
  have p: "0 < taskBatchSizeFn demoScavenger" by (simp add: demoScavenger_def)
  have s: "sortedQueue (queueOf demoQueue) (demoWorld ts [])" if "sorted (map TaskID ts)" for ts
    using that by (rule demo_sortedQueue)
  have at: "deleteAttempted (demoWorld [] []) (snd (deleteHandler demoScavenger demoQueue (demoWorld [] [])))"
    and tl: "taskLists (snd (deleteHandler demoScavenger demoQueue (demoWorld [] []))) = []"
    by (simp_all add: deleteAttempted_def demo_eval)
  have lv: "tasksOf (queueOf demoQueue)
      (rows (snd (deleteHandler demoScavenger demoQueue (demoWorld [liveTask 1] [])))) \<noteq> []"
    by (simp add: demo_eval)
  note t1 = metadata_delete_guard [OF s p, of "[]" "demoWorld [] []", THEN conjunct1, rule_format, OF _ at]
  note t2 = metadata_delete_guard [OF s p, of "[liveTask 1]" "demoWorld [] []", THEN conjunct2,
      THEN conjunct1, rule_format, OF _ disjI1, OF _ lv]
  have "taskLists (demoWorld [liveTask 1] []) = [demoQueue]" by (simp add: demoWorld_def)
  with t1 t2 tl at show ?thesis by simp
qed

lemma deleteLoop_counts:
  "0 \<le> taskBatchSizeFn s \<longrightarrow> nP < maxTasksPerJobFn s + taskBatchSizeFn s \<longrightarrow>
   nProcessedOf (deleteLoop s info nP nD w) < maxTasksPerJobFn s + taskBatchSizeFn s \<and>
   nP \<le> nProcessedOf (deleteLoop s info nP nD w) \<and>
   nD \<le> nDeletedOf (deleteLoop s info nP nD w) \<and>
   nDeletedOf (deleteLoop s info nP nD w) - nD \<le> nProcessedOf (deleteLoop s info nP nD w) - nP \<and>
   taskNProcessed (worldOf (deleteLoop s info nP nD w)) = taskNProcessed w \<and>
   taskNDeleted (worldOf (deleteLoop s info nP nD w)) = taskNDeleted w"
proof (induction nP nD w rule: deleteLoop_rule [of s _ info])
  case (budget nP nD w)
  then show ?case by (simp add: deleteLoop_budget)
next
  case (getTasksError nP nD w e w1)
  from getTasks_Inl [OF getTasksError(2)] getTasksError(1)
  show ?case by (simp add: deleteLoop_getTasks_error [OF getTasksError(1,2)])
next
  case (empty nP nD w w1)
  from getTasks_Inr [OF empty(2)] empty(1)
  show ?case by (simp add: deleteLoop_empty [OF empty(1,2)] tryDeleteTaskList_frame)
next
  case (unexpired nP nD w tasks w1)
  note g = getTasks_Inr [OF unexpired(2)]
  from unexpired(3) have ne: "tasks \<noteq> []" by auto
  show ?case
  proof (intro impI)
    assume b: "0 \<le> taskBatchSizeFn s"
    with g have "int (length tasks) \<le> taskBatchSizeFn s" by simp
    with scanBatch_count [OF ne, of nP "now w1"] unexpired(1) g
    show "nProcessedOf (deleteLoop s info nP nD w) < maxTasksPerJobFn s + taskBatchSizeFn s \<and>
      nP \<le> nProcessedOf (deleteLoop s info nP nD w) \<and>
      nD \<le> nDeletedOf (deleteLoop s info nP nD w) \<and>
      nDeletedOf (deleteLoop s info nP nD w) - nD \<le> nProcessedOf (deleteLoop s info nP nD w) - nP \<and>
      taskNProcessed (worldOf (deleteLoop s info nP nD w)) = taskNProcessed w \<and>
      taskNDeleted (worldOf (deleteLoop s info nP nD w)) = taskNDeleted w"
      by (simp add: deleteLoop_unexpired [OF unexpired(1,2,3)])
  qed
next
  case (completeTasksError nP nD w tasks w1 e w2)
  note g = getTasks_Inr [OF completeTasksError(2)] and c = completeTasks_Inl [OF completeTasksError(5)]
  show ?case
  proof (intro impI)
    assume b: "0 \<le> taskBatchSizeFn s"
    with g have "int (length tasks) \<le> taskBatchSizeFn s" by simp
    with completeTasksError(1) g c
    show "nProcessedOf (deleteLoop s info nP nD w) < maxTasksPerJobFn s + taskBatchSizeFn s \<and>
      nP \<le> nProcessedOf (deleteLoop s info nP nD w) \<and>
      nD \<le> nDeletedOf (deleteLoop s info nP nD w) \<and>
      nDeletedOf (deleteLoop s info nP nD w) - nD \<le> nProcessedOf (deleteLoop s info nP nD w) - nP \<and>
      taskNProcessed (worldOf (deleteLoop s info nP nD w)) = taskNProcessed w \<and>
      taskNDeleted (worldOf (deleteLoop s info nP nD w)) = taskNDeleted w"
      by (simp add: deleteLoop_completeTasks_error [OF completeTasksError(1,2,3,4,5)])
  qed
next
  case (short nP nD w tasks w1 c w2)
  note g = getTasks_Inr [OF short(2)] and c = completeTasks_Inr [OF short(5)]
  show ?case
  proof (intro impI)
    assume b: "0 \<le> taskBatchSizeFn s"
    with g have "int (length tasks) \<le> taskBatchSizeFn s" by simp
    with short(1) g c
    show "nProcessedOf (deleteLoop s info nP nD w) < maxTasksPerJobFn s + taskBatchSizeFn s \<and>
      nP \<le> nProcessedOf (deleteLoop s info nP nD w) \<and>
      nD \<le> nDeletedOf (deleteLoop s info nP nD w) \<and>
      nDeletedOf (deleteLoop s info nP nD w) - nD \<le> nProcessedOf (deleteLoop s info nP nD w) - nP \<and>
      taskNProcessed (worldOf (deleteLoop s info nP nD w)) = taskNProcessed w \<and>
      taskNDeleted (worldOf (deleteLoop s info nP nD w)) = taskNDeleted w"
      by (simp add: deleteLoop_short [OF short(1,2,3,4,5,6)] tryDeleteTaskList_frame)
  qed
next
  case (full nP nD w tasks w1 c w2)
  note g = getTasks_Inr [OF full(2)] and c = completeTasks_Inr [OF full(5)]
  show ?case
  proof (intro impI)
    assume b: "0 \<le> taskBatchSizeFn s"
    with g have l: "int (length tasks) \<le> taskBatchSizeFn s" by simp
    with full(1) have "nP + int (length tasks) < maxTasksPerJobFn s + taskBatchSizeFn s" by simp
    with full(7) b g c
    show "nProcessedOf (deleteLoop s info nP nD w) < maxTasksPerJobFn s + taskBatchSizeFn s \<and>
      nP \<le> nProcessedOf (deleteLoop s info nP nD w) \<and>
      nD \<le> nDeletedOf (deleteLoop s info nP nD w) \<and>
      nDeletedOf (deleteLoop s info nP nD w) - nD \<le> nProcessedOf (deleteLoop s info nP nD w) - nP \<and>
      taskNProcessed (worldOf (deleteLoop s info nP nD w)) = taskNProcessed w \<and>
      taskNDeleted (worldOf (deleteLoop s info nP nD w)) = taskNDeleted w"
      by (simp add: deleteLoop_full [OF full(1,2,3,4,5,6)])
  qed
qed


text \<open>
  Claim C9, as stated, fails where the budget and the page size add up to nothing: with
  \<open>maxTasksPerJob = 0\<close> and \<open>taskBatchSize = 0\<close> the loop is never entered, no batch
  is fetched, no task is processed, and 0 is not strictly less than 0 + 0.
\<close>

theorem processed_bound_counterexample:
  "nProcessedOf (deleteLoop (demoScavenger\<lparr>taskBatchSizeFn := 0, maxTasksPerJobFn := 0\<rparr>) demoQueue 0 0
                  (demoWorld [expiredTask 1] [])) = 0 \<and>
   calls (snd (deleteHandler (demoScavenger\<lparr>taskBatchSizeFn := 0, maxTasksPerJobFn := 0\<rparr>) demoQueue
                  (demoWorld [expiredTask 1] []))) = [] \<and>
   \<not> nProcessedOf (deleteLoop (demoScavenger\<lparr>taskBatchSizeFn := 0, maxTasksPerJobFn := 0\<rparr>) demoQueue 0 0
                  (demoWorld [expiredTask 1] []))
       < maxTasksPerJobFn (demoScavenger\<lparr>taskBatchSizeFn := 0, maxTasksPerJobFn := 0\<rparr>) +
         taskBatchSizeFn (demoScavenger\<lparr>taskBatchSizeFn := 0, maxTasksPerJobFn := 0\<rparr>)"
  by (simp add: demo_eval)

text \<open>
  Claim C9, amended. With a page size that is not negative (so that every fetch returns
  at most that many tasks) and \<open>maxTasksPerJob + taskBatchSize > 0\<close>, the number of
  tasks an invocation of \<open>deleteHandler\<close> processes, which is what it adds to the
  processed counter, is strictly less than \<open>maxTasksPerJob + taskBatchSize\<close>, and it
  deletes no more tasks than it processes. The bound is reached: some run processes
  \<open>maxTasksPerJob + taskBatchSize - 1\<close> tasks.
\<close>

theorem processed_bound:
  assumes "0 \<le> taskBatchSizeFn s"
    and "0 < maxTasksPerJobFn s + taskBatchSizeFn s"
  shows "nProcessedOf (deleteLoop s info 0 0 w) < maxTasksPerJobFn s + taskBatchSizeFn s \<and>
         taskNProcessed (snd (deleteHandler s info w)) - taskNProcessed w =
           nProcessedOf (deleteLoop s info 0 0 w) \<and>
         taskNDeleted (snd (deleteHandler s info w)) - taskNDeleted w =
           nDeletedOf (deleteLoop s info 0 0 w) \<and>
         nDeletedOf (deleteLoop s info 0 0 w) \<le> nProcessedOf (deleteLoop s info 0 0 w) \<and>
         (\<exists>s' info' w'. 1 < taskBatchSizeFn s' \<and>
            nProcessedOf (deleteLoop s' info' 0 0 w') =
              maxTasksPerJobFn s' + taskBatchSizeFn s' - 1)"
proof -
  from deleteLoop_counts [of s 0 info 0 w] assms
  have c: "nProcessedOf (deleteLoop s info 0 0 w) < maxTasksPerJobFn s + taskBatchSizeFn s"
    "nDeletedOf (deleteLoop s info 0 0 w) \<le> nProcessedOf (deleteLoop s info 0 0 w)"
    "taskNProcessed (worldOf (deleteLoop s info 0 0 w)) = taskNProcessed w"
    "taskNDeleted (worldOf (deleteLoop s info 0 0 w)) = taskNDeleted w"
    by simp_all
  have "1 < taskBatchSizeFn demoScavenger \<and>
      nProcessedOf (deleteLoop demoScavenger demoQueue 0 0
        (demoWorld [expiredTask 1, expiredTask 2, expiredTask 3, expiredTask 4] [])) =
      maxTasksPerJobFn demoScavenger + taskBatchSizeFn demoScavenger - 1"
    by (simp add: demo_eval numeral_2_eq_2)
  then have "\<exists>s' info' w'. 1 < taskBatchSizeFn s' \<and>
            nProcessedOf (deleteLoop s' info' 0 0 w') =
              maxTasksPerJobFn s' + taskBatchSizeFn s' - 1"
    by blast
  with c show ?thesis
    by (simp add: deleteHandler_def Let_def deleteHandlerLog_frame)
qed

theorem processed_bound_witness:
  "nProcessedOf (deleteLoop demoScavenger demoQueue 0 0
     (demoWorld [expiredTask 1, expiredTask 2, expiredTask 3, expiredTask 4] [])) < 5 \<and>
   taskNProcessed (snd (deleteHandler demoScavenger demoQueue
     (demoWorld [expiredTask 1, expiredTask 2, expiredTask 3, expiredTask 4] []))) =
   nProcessedOf (deleteLoop demoScavenger demoQueue 0 0
     (demoWorld [expiredTask 1, expiredTask 2, expiredTask 3, expiredTask 4] []))"
proof -
  have a: "0 \<le> taskBatchSizeFn demoScavenger"
    and b: "0 < maxTasksPerJobFn demoScavenger + taskBatchSizeFn demoScavenger"
    by (simp_all add: demoScavenger_def)
  have z: "taskNProcessed (demoWorld ts fs) = 0" for ts fs by (simp add: demoWorld_def)
  have m: "maxTasksPerJobFn demoScavenger + taskBatchSizeFn demoScavenger = 5"
    by (simp add: demoScavenger_def)
  from processed_bound [OF a b, of demoQueue
      "demoWorld [expiredTask 1, expiredTask 2, expiredTask 3, expiredTask 4] []"] z m
  show ?thesis by simp
qed

lemma full_batch_size:
  assumes "tasks = take (nat b) ts" and "tasks \<noteq> []" and "\<not> int (length tasks) < b"
  shows "0 < b \<and> int (length tasks) = b \<and> b \<le> int (length ts)"
proof -
  from assms(1,2) have "0 < nat b" by (cases "nat b") auto
  then have p: "0 < b" by simp
  from assms(1) have "length tasks = min (length ts) (nat b)" by simp
  with assms(3) p show ?thesis by linarith
qed

lemma deleteLoop_all_expired:
  "sortedQueue (queueOf info) w \<longrightarrow> faults w = [] \<longrightarrow>
   (\<forall>t \<in> set (tasksOf (queueOf info) (rows w)). isTaskExpired (now w) t) \<longrightarrow>
   (status (deleteLoop s info nP nD w) = handlerStatusDefer \<longleftrightarrow>
      (\<exists>j::nat. maxTasksPerJobFn s \<le> nP + int j * taskBatchSizeFn s \<and>
                int j * taskBatchSizeFn s \<le> int (length (tasksOf (queueOf info) (rows w))))) \<and>
   status (deleteLoop s info nP nD w) \<noteq> handlerStatusErr"
proof (induction nP nD w rule: deleteLoop_rule [of s _ info])
  case (budget nP nD w)
  then have "maxTasksPerJobFn s \<le> nP + int 0 * taskBatchSizeFn s \<and>
      int 0 * taskBatchSizeFn s \<le> int (length (tasksOf (queueOf info) (rows w)))"
    by simp
  then have "\<exists>j::nat. maxTasksPerJobFn s \<le> nP + int j * taskBatchSizeFn s \<and>
                int j * taskBatchSizeFn s \<le> int (length (tasksOf (queueOf info) (rows w)))"
    by blast
  with budget show ?case by (simp add: deleteLoop_budget)
next
  case (getTasksError nP nD w e w1)
  from getTasks_Inl [OF getTasksError(2)] show ?case by simp
next
  case (empty nP nD w w1)
  note g = getTasks_Inr [OF empty(2)]
  let ?ts = "tasksOf (queueOf info) (rows w)"
  let ?b = "taskBatchSizeFn s"
  have no: "\<not> (maxTasksPerJobFn s \<le> nP + int j * ?b \<and> int j * ?b \<le> int (length ?ts))" for j
  proof (cases "0 < ?b")
    case True
    with g have "?ts = []" using take_Nil_pos [of ?b ?ts] by simp
    then show ?thesis using empty(1) by auto
  next
    case False
    then have "int j * ?b \<le> 0" by (simp add: mult_le_0_iff)
    with empty(1) show ?thesis by simp
  qed
  then show ?case by (simp add: deleteLoop_empty [OF empty(1,2)])
next
  case (unexpired nP nD w tasks w1)
  note g = getTasks_Inr [OF unexpired(2)]
  show ?case
  proof (intro impI)
    assume a: "\<forall>t \<in> set (tasksOf (queueOf info) (rows w)). isTaskExpired (now w) t"
    from unexpired(3) obtain t where t: "t \<in> set tasks" "\<not> isTaskExpired (now w1) t" by blast
    from t(1) g have "t \<in> set (tasksOf (queueOf info) (rows w))" by (metis in_set_takeD)
    with a t(2) g have False by simp
    then show "(status (deleteLoop s info nP nD w) = handlerStatusDefer \<longleftrightarrow>
      (\<exists>j::nat. maxTasksPerJobFn s \<le> nP + int j * taskBatchSizeFn s \<and>
                int j * taskBatchSizeFn s \<le> int (length (tasksOf (queueOf info) (rows w))))) \<and>
      status (deleteLoop s info nP nD w) \<noteq> handlerStatusErr" ..
  qed
next
  case (completeTasksError nP nD w tasks w1 e w2)
  from getTasks_Inr [OF completeTasksError(2)] completeTasks_Inl [OF completeTasksError(5)]
  have "faults w \<noteq> []" by auto
  then show ?case by simp
next
  case (short nP nD w tasks w1 c w2)
  note g = getTasks_Inr [OF short(2)]
  let ?ts = "tasksOf (queueOf info) (rows w)"
  let ?b = "taskBatchSizeFn s"
  from g short(6) have all: "tasks = ?ts"
    using take_short_all [of ?b ?ts] by simp
  with short(6) have lt: "int (length ?ts) < ?b" by simp
  have no: "\<not> (maxTasksPerJobFn s \<le> nP + int j * ?b \<and> int j * ?b \<le> int (length ?ts))" for j
  proof (cases j)
    case 0
    with short(1) show ?thesis by simp
  next
    case (Suc j')
    from lt have "0 \<le> ?b" by simp
    then have "0 \<le> int j' * ?b" by simp
    then have "?b \<le> int (Suc j') * ?b" by (simp add: distrib_right)
    with lt have "\<not> int (Suc j') * ?b \<le> int (length ?ts)" by linarith
    with Suc show ?thesis by blast
  qed
  then show ?case by (simp add: deleteLoop_short [OF short(1,2,3,4,5,6)])
next
  case (full nP nD w tasks w1 c w2)
  note g = getTasks_Inr [OF full(2)] and ct = completeTasks_Inr [OF full(5)]
  let ?ts = "tasksOf (queueOf info) (rows w)"
  let ?b = "taskBatchSizeFn s"
  let ?m = "maxTasksPerJobFn s"
  show ?case
  proof (intro impI)
    assume srt: "sortedQueue (queueOf info) w" and f: "faults w = []"
      and a: "\<forall>t \<in> set ?ts. isTaskExpired (now w) t"
    from g have tk: "tasks = take (nat ?b) ?ts" by simp
    from full_batch_size [OF tk full(3,6)]
    have b: "0 < ?b" "int (length tasks) = ?b" "?b \<le> int (length ?ts)" by simp_all
    from batch_completed(1) [OF full(2,3,5) srt]
    have d: "tasksOf (queueOf info) (rows w2) = drop (length tasks) ?ts" .
    from batch_completed(2) [OF full(2,3,5) srt] have s2: "sortedQueue (queueOf info) w2" .
    from g ct f have f2: "faults w2 = []" and n2: "now w2 = now w" by simp_all
    from a d n2 have a2: "\<forall>t \<in> set (tasksOf (queueOf info) (rows w2)). isTaskExpired (now w2) t"
      by (auto dest: in_set_dropD)
    from d b have l2: "int (length (tasksOf (queueOf info) (rows w2))) = int (length ?ts) - ?b"
      by simp
    let ?r = "deleteLoop s info (nP + int (length tasks)) (nD + int (length tasks)) w2"
    from full(7) s2 f2 a2 l2 b(2)
    have ih: "status ?r = handlerStatusDefer \<longleftrightarrow>
        (\<exists>j::nat. ?m \<le> nP + ?b + int j * ?b \<and> int j * ?b \<le> int (length ?ts) - ?b)"
      and ne: "status ?r \<noteq> handlerStatusErr"
      by simp_all
    have eq: "(\<exists>j::nat. ?m \<le> nP + ?b + int j * ?b \<and> int j * ?b \<le> int (length ?ts) - ?b) \<longleftrightarrow>
        (\<exists>j::nat. ?m \<le> nP + int j * ?b \<and> int j * ?b \<le> int (length ?ts))"
    proof
      assume "\<exists>j::nat. ?m \<le> nP + ?b + int j * ?b \<and> int j * ?b \<le> int (length ?ts) - ?b"
      then obtain j :: nat where j: "?m \<le> nP + ?b + int j * ?b" "int j * ?b \<le> int (length ?ts) - ?b"
        by blast
      have "int (Suc j) * ?b = ?b + int j * ?b" by (simp add: distrib_right)
      with j have "?m \<le> nP + int (Suc j) * ?b \<and> int (Suc j) * ?b \<le> int (length ?ts)"
        by simp
      then show "\<exists>j::nat. ?m \<le> nP + int j * ?b \<and> int j * ?b \<le> int (length ?ts)" by blast
    next
      assume "\<exists>j::nat. ?m \<le> nP + int j * ?b \<and> int j * ?b \<le> int (length ?ts)"
      then obtain j :: nat where j: "?m \<le> nP + int j * ?b" "int j * ?b \<le> int (length ?ts)"
        by blast
      from j(1) full(1) have "j \<noteq> 0" by (cases j) auto
      then obtain j' where j': "j = Suc j'" by (cases j) auto
      have "int (Suc j') * ?b = ?b + int j' * ?b" by (simp add: distrib_right)
      with j j' have "?m \<le> nP + ?b + int j' * ?b \<and> int j' * ?b \<le> int (length ?ts) - ?b"
        by simp
      then show "\<exists>j::nat. ?m \<le> nP + ?b + int j * ?b \<and> int j * ?b \<le> int (length ?ts) - ?b"
        by blast
    qed
    from ih ne eq
    show "(status (deleteLoop s info nP nD w) = handlerStatusDefer \<longleftrightarrow>
      (\<exists>j::nat. ?m \<le> nP + int j * ?b \<and> int j * ?b \<le> int (length ?ts))) \<and>
      status (deleteLoop s info nP nD w) \<noteq> handlerStatusErr"
      by (simp add: deleteLoop_full [OF full(1,2,3,4,5,6)])
  qed
qed


lemma getTasks_ok:
  "faults w = [] \<Longrightarrow>
   getTasks info b w =
     (Inr (take (nat b) (tasksOf (queueOf info) (rows w))),
      w\<lparr>calls := calls w @ [GetTasks (queueOf info) b]\<rparr>)"
  by (simp add: getTasks_def nextFault_def)

lemma completeTasks_ok:
  "faults w = [] \<Longrightarrow>
   completeTasks info tid n w =
     (Inr (int (length (rows w)) - int (length (removeUpTo (queueOf info) tid (nat n) (rows w)))),
      w\<lparr>calls := calls w @ [CompleteTasks (queueOf info) tid n],
        rows := removeUpTo (queueOf info) tid (nat n) (rows w)\<rparr>)"
  by (simp add: completeTasks_def nextFault_def Let_def)

lemma isTaskExpired_later: "isTaskExpired n t \<Longrightarrow> n \<le> n' \<Longrightarrow> isTaskExpired n' t"
  by (simp add: isTaskExpired_def)

text \<open>
  One iteration on a task list whose first page is wholly expired, with no persistence
  failure: the page is fetched and completed, and the loop either ends on the short
  page or goes on behind the full one.
\<close>

lemma deleteLoop_expired_page:
  assumes srt: "sortedQueue (queueOf info) w"
    and nf: "faults w = []"
    and ts: "tasksOf (queueOf info) (rows w) = ts"
    and ne: "take (nat (taskBatchSizeFn s)) ts \<noteq> []"
    and ex: "\<forall>t \<in> set (take (nat (taskBatchSizeFn s)) ts). isTaskExpired (now w) t"
    and bud: "nP < maxTasksPerJobFn s"
  obtains w2 where
    "tasksOf (queueOf info) (rows w2) = drop (nat (taskBatchSizeFn s)) ts"
    "sortedQueue (queueOf info) w2" "faults w2 = []" "now w2 = now w"
    "taskLists w2 = taskLists w" "taskNDeleted w2 = taskNDeleted w"
    "\<not> deleteAttempted w w2"
    "tasklistNDeleted w2 = tasklistNDeleted w"
    "calls w2 = calls w @
       [GetTasks (queueOf info) (taskBatchSizeFn s),
        CompleteTasks (queueOf info) (TaskID (last (take (nat (taskBatchSizeFn s)) ts)))
          (int (length (take (nat (taskBatchSizeFn s)) ts)))]"
    "int (length (take (nat (taskBatchSizeFn s)) ts)) < taskBatchSizeFn s \<Longrightarrow>
       deleteLoop s info nP nD w =
         \<lparr>status = handlerStatusDone,
          nProcessedOf = nP + int (length (take (nat (taskBatchSizeFn s)) ts)),
          nDeletedOf = nD + int (length (take (nat (taskBatchSizeFn s)) ts)),
          errOf = None, worldOf = tryDeleteTaskList s info w2\<rparr>"
    "\<not> int (length (take (nat (taskBatchSizeFn s)) ts)) < taskBatchSizeFn s \<Longrightarrow>
       deleteLoop s info nP nD w =
         deleteLoop s info (nP + int (length (take (nat (taskBatchSizeFn s)) ts)))
           (nD + int (length (take (nat (taskBatchSizeFn s)) ts))) w2"
proof -
  let ?b = "taskBatchSizeFn s"
  let ?tasks = "take (nat ?b) ts"
  let ?w1 = "w\<lparr>calls := calls w @ [GetTasks (queueOf info) ?b]\<rparr>"
  from getTasks_ok [OF nf, of info ?b] ts
  have g: "getTasks info ?b w = (Inr ?tasks, ?w1)" by simp
  have nf1: "faults ?w1 = []" using nf by simp
  obtain c w2 where c: "completeTasks info (TaskID (last ?tasks)) (int (length ?tasks)) ?w1 = (Inr c, w2)"
    using completeTasks_ok [OF nf1] by blast
  note fr = completeTasks_Inr [OF c]
  have ex1: "\<forall>t \<in> set ?tasks. isTaskExpired (now ?w1) t" using ex by simp
  from batch_completed(1) [OF g ne c srt] ts
  have d: "tasksOf (queueOf info) (rows w2) = drop (nat ?b) ts"
    by (simp add: min_def)
  show ?thesis
  proof (rule that [of w2])
    show "tasksOf (queueOf info) (rows w2) = drop (nat ?b) ts" by (rule d)
    show "sortedQueue (queueOf info) w2" by (rule batch_completed(2) [OF g ne c srt])
    show "faults w2 = []" using fr nf by simp
    show "now w2 = now w" using fr by simp
    show "taskLists w2 = taskLists w" using fr by simp
    show "taskNDeleted w2 = taskNDeleted w" using fr by simp
    show "\<not> deleteAttempted w w2" using fr by (simp add: deleteAttempted_def)
    show "tasklistNDeleted w2 = tasklistNDeleted w" using fr by simp
    show "calls w2 = calls w @
       [GetTasks (queueOf info) ?b,
        CompleteTasks (queueOf info) (TaskID (last ?tasks)) (int (length ?tasks))]"
      using fr by simp
    show "deleteLoop s info nP nD w =
         \<lparr>status = handlerStatusDone, nProcessedOf = nP + int (length ?tasks),
          nDeletedOf = nD + int (length ?tasks),
          errOf = None, worldOf = tryDeleteTaskList s info w2\<rparr>"
      if "int (length ?tasks) < ?b"
      by (rule deleteLoop_short [OF bud g ne ex1 c that])
    show "deleteLoop s info nP nD w =
         deleteLoop s info (nP + int (length ?tasks)) (nD + int (length ?tasks)) w2"
      if "\<not> int (length ?tasks) < ?b"
      by (rule deleteLoop_full [OF bud g ne ex1 c that])
  qed
qed


text \<open>
  Claim C3. On a task list whose stored tasks are all expired and in taskID order, with
  no persistence failure, \<open>deleteHandler\<close> never returns Err, and it returns Defer
  exactly when the budget is used up while the batches are still full: some number
  \<open>j\<close> of full pages is stored (\<open>j * taskBatchSize\<close> tasks at most the stored ones)
  and reaches the budget (\<open>maxTasksPerJob \<le> j * taskBatchSize\<close>). In particular, with
  150 such tasks, a budget of 100 and a page size of 100, the first run returns Defer
  having deleted the first 100 tasks and asked for no metadata deletion: its calls are
  one get-tasks and one complete-tasks. The second run, at the same or a later time,
  deletes the other 50, calls \<open>tryDeleteTaskList\<close> on the emptied task list and returns
  Done: its calls are one get-tasks, one complete-tasks up to the last taskID and, when
  the name is unprefixed and the grace period has passed at that time, one
  delete-task-list call for this task list and the observed rangeID, which is the last
  call of the run; a delete-task-list call is issued in the second run exactly in that
  case. When a metadata row with this rangeID is stored, that call removes it and the
  counter of deleted task lists goes up by one.
\<close>

theorem all_expired_defer_iff_budget:
  assumes "sortedQueue (queueOf info) w"
    and "faults w = []"
    and "\<forall>t \<in> set (tasksOf (queueOf info) (rows w)). isTaskExpired (now w) t"
  shows "(fst (deleteHandler s info w) = handlerStatusDefer \<longleftrightarrow>
            (\<exists>j::nat. maxTasksPerJobFn s \<le> int j * taskBatchSizeFn s \<and>
                      int j * taskBatchSizeFn s \<le> int (length (tasksOf (queueOf info) (rows w))))) \<and>
         fst (deleteHandler s info w) \<noteq> handlerStatusErr \<and>
         (length (tasksOf (queueOf info) (rows w)) = 150 \<and> taskBatchSizeFn s = 100 \<and>
          maxTasksPerJobFn s = 100 \<and> now w \<le> later \<longrightarrow>
            fst (deleteHandler s info w) = handlerStatusDefer \<and>
            taskNDeleted (snd (deleteHandler s info w)) = taskNDeleted w + 100 \<and>
            tasksOf (queueOf info) (rows (snd (deleteHandler s info w))) =
              drop 100 (tasksOf (queueOf info) (rows w)) \<and>
            \<not> deleteAttempted w (snd (deleteHandler s info w)) \<and>
            fst (deleteHandler s info ((snd (deleteHandler s info w))\<lparr>now := later\<rparr>)) =
              handlerStatusDone \<and>
            taskNDeleted (snd (deleteHandler s info ((snd (deleteHandler s info w))\<lparr>now := later\<rparr>))) =
              taskNDeleted w + 150 \<and>
            tasksOf (queueOf info)
              (rows (snd (deleteHandler s info ((snd (deleteHandler s info w))\<lparr>now := later\<rparr>)))) = [] \<and>
            (\<exists>w2. tasksOf (queueOf info) (rows w2) = [] \<and>
               snd (deleteHandler s info ((snd (deleteHandler s info w))\<lparr>now := later\<rparr>)) =
                 deleteHandlerLog info 50 50 None (tryDeleteTaskList s info w2)) \<and>
            calls (snd (deleteHandler s info w)) =
              calls w @
                [GetTasks (queueOf info) 100,
                 CompleteTasks (queueOf info)
                   (TaskID (last (take 100 (tasksOf (queueOf info) (rows w))))) 100] \<and>
            calls (snd (deleteHandler s info ((snd (deleteHandler s info w))\<lparr>now := later\<rparr>))) =
              calls (snd (deleteHandler s info w)) @
                [GetTasks (queueOf info) 100,
                 CompleteTasks (queueOf info) (TaskID (last (tasksOf (queueOf info) (rows w)))) 50] @
                (if \<not> HasPrefix (Name info) scannerTaskListPrefix \<and>
                    taskListGracePeriod s \<le> later - LastUpdated info
                 then [DeleteTaskList (queueOf info) (RangeID info)] else []) \<and>
            deleteAttempted ((snd (deleteHandler s info w))\<lparr>now := later\<rparr>)
                (snd (deleteHandler s info ((snd (deleteHandler s info w))\<lparr>now := later\<rparr>))) =
              (\<not> HasPrefix (Name info) scannerTaskListPrefix \<and>
               taskListGracePeriod s \<le> later - LastUpdated info) \<and>
            (\<not> HasPrefix (Name info) scannerTaskListPrefix \<and>
             taskListGracePeriod s \<le> later - LastUpdated info \<and>
             list_ex (\<lambda>m. queueOf m = queueOf info \<and> RangeID m = RangeID info) (taskLists w) \<longrightarrow>
               taskLists (snd (deleteHandler s info ((snd (deleteHandler s info w))\<lparr>now := later\<rparr>))) =
                 filter (\<lambda>m. queueOf m \<noteq> queueOf info) (taskLists w) \<and>
               tasklistNDeleted
                   (snd (deleteHandler s info ((snd (deleteHandler s info w))\<lparr>now := later\<rparr>))) =
                 tasklistNDeleted w + 1))"
proof (intro conjI impI)
  from deleteLoop_all_expired [of info w s 0 0] assms
  show "fst (deleteHandler s info w) = handlerStatusDefer \<longleftrightarrow>
            (\<exists>j::nat. maxTasksPerJobFn s \<le> int j * taskBatchSizeFn s \<and>
                      int j * taskBatchSizeFn s \<le> int (length (tasksOf (queueOf info) (rows w))))"
    and "fst (deleteHandler s info w) \<noteq> handlerStatusErr"
    by (simp_all add: deleteHandler_def Let_def)
next
  let ?k = "queueOf info"
  let ?ts = "tasksOf ?k (rows w)"
  assume a: "length ?ts = 150 \<and> taskBatchSizeFn s = 100 \<and> maxTasksPerJobFn s = 100 \<and> now w \<le> later"
  then have len: "length ?ts = 150" and b: "taskBatchSizeFn s = 100" and m: "maxTasksPerJobFn s = 100"
    and lt: "now w \<le> later" by simp_all
  have ne1: "take (nat (taskBatchSizeFn s)) ?ts \<noteq> []" using len b by auto
  have ex1: "\<forall>t \<in> set (take (nat (taskBatchSizeFn s)) ?ts). isTaskExpired (now w) t"
    using assms(3) by (auto dest: in_set_takeD)
  have bud1: "(0::int) < maxTasksPerJobFn s" using m by simp
  from deleteLoop_expired_page [OF assms(1,2) refl ne1 ex1 bud1, of 0]
  obtain w2 where w2: "tasksOf ?k (rows w2) = drop (nat (taskBatchSizeFn s)) ?ts"
    "sortedQueue ?k w2" "faults w2 = []" "now w2 = now w" "taskNDeleted w2 = taskNDeleted w"
    "\<not> deleteAttempted w w2"
    "taskLists w2 = taskLists w" "tasklistNDeleted w2 = tasklistNDeleted w"
    "calls w2 = calls w @
       [GetTasks ?k (taskBatchSizeFn s),
        CompleteTasks ?k (TaskID (last (take (nat (taskBatchSizeFn s)) ?ts)))
          (int (length (take (nat (taskBatchSizeFn s)) ?ts)))]"
    and full: "\<not> int (length (take (nat (taskBatchSizeFn s)) ?ts)) < taskBatchSizeFn s \<Longrightarrow>
       deleteLoop s info 0 0 w =
         deleteLoop s info (0 + int (length (take (nat (taskBatchSizeFn s)) ?ts)))
           (0 + int (length (take (nat (taskBatchSizeFn s)) ?ts))) w2"
    by blast
  have l1: "int (length (take (nat (taskBatchSizeFn s)) ?ts)) = 100" using len b by simp
  from full l1 b have "deleteLoop s info 0 0 w = deleteLoop s info 100 100 w2" by simp
  also have "\<dots> = \<lparr>status = handlerStatusDefer, nProcessedOf = 100, nDeletedOf = 100,
      errOf = None, worldOf = w2\<rparr>"
    using m by (simp add: deleteLoop_budget)
  finally have run1: "deleteHandler s info w = (handlerStatusDefer, deleteHandlerLog info 100 100 None w2)"
    by (simp add: deleteHandler_def)
  let ?v = "(deleteHandlerLog info 100 100 None w2)\<lparr>now := later\<rparr>"
  have r1: "snd (deleteHandler s info w) = deleteHandlerLog info 100 100 None w2"
    using run1 by simp
  show "fst (deleteHandler s info w) = handlerStatusDefer" using run1 by simp
  show "taskNDeleted (snd (deleteHandler s info w)) = taskNDeleted w + 100"
    using r1 w2(5) by (simp add: deleteHandlerLog_frame)
  show "tasksOf ?k (rows (snd (deleteHandler s info w))) = drop 100 ?ts"
    using r1 w2(1) b by (simp add: deleteHandlerLog_frame)
  show "\<not> deleteAttempted w (snd (deleteHandler s info w))"
    using r1 w2(6) by (simp add: deleteAttempted_def deleteHandlerLog_frame)
  have rv: "rows ?v = rows w2" by (simp add: deleteHandlerLog_frame)
  have sv: "sortedQueue ?k ?v" using w2(2) by (simp add: sortedQueue_def rv)
  have fv: "faults ?v = []" using w2(3) by (simp add: deleteHandlerLog_frame)
  have tv: "tasksOf ?k (rows ?v) = drop 100 ?ts" using w2(1) b by (simp add: rv)
  have ne2: "take (nat (taskBatchSizeFn s)) (drop 100 ?ts) \<noteq> []" using len b by auto
  have ex2: "\<forall>t \<in> set (take (nat (taskBatchSizeFn s)) (drop 100 ?ts)). isTaskExpired (now ?v) t"
    using assms(3) lt by (auto dest!: in_set_takeD in_set_dropD intro: isTaskExpired_later)
  from deleteLoop_expired_page [OF sv fv tv ne2 ex2 bud1, of 0]
  obtain w4 where w4: "tasksOf ?k (rows w4) = drop (nat (taskBatchSizeFn s)) (drop 100 ?ts)"
    "taskNDeleted w4 = taskNDeleted ?v"
    "faults w4 = []" "now w4 = now ?v" "taskLists w4 = taskLists ?v"
    "tasklistNDeleted w4 = tasklistNDeleted ?v"
    "calls w4 = calls ?v @
       [GetTasks ?k (taskBatchSizeFn s),
        CompleteTasks ?k (TaskID (last (take (nat (taskBatchSizeFn s)) (drop 100 ?ts))))
          (int (length (take (nat (taskBatchSizeFn s)) (drop 100 ?ts))))]"
    and short: "int (length (take (nat (taskBatchSizeFn s)) (drop 100 ?ts))) < taskBatchSizeFn s \<Longrightarrow>
       deleteLoop s info 0 0 ?v =
         \<lparr>status = handlerStatusDone,
          nProcessedOf = 0 + int (length (take (nat (taskBatchSizeFn s)) (drop 100 ?ts))),
          nDeletedOf = 0 + int (length (take (nat (taskBatchSizeFn s)) (drop 100 ?ts))),
          errOf = None, worldOf = tryDeleteTaskList s info w4\<rparr>"
    by blast
  have l2: "int (length (take (nat (taskBatchSizeFn s)) (drop 100 ?ts))) = 50" using len b by simp
  from short l2 b
  have "deleteLoop s info 0 0 ?v =
      \<lparr>status = handlerStatusDone, nProcessedOf = 50, nDeletedOf = 50,
       errOf = None, worldOf = tryDeleteTaskList s info w4\<rparr>"
    by simp
  then have run2: "deleteHandler s info ?v =
      (handlerStatusDone, deleteHandlerLog info 50 50 None (tryDeleteTaskList s info w4))"
    by (simp add: deleteHandler_def)
  have e4: "tasksOf ?k (rows w4) = []" using w4(1) len b by simp
  show "fst (deleteHandler s info ((snd (deleteHandler s info w))\<lparr>now := later\<rparr>)) = handlerStatusDone"
    using run2 r1 by simp
  show "taskNDeleted (snd (deleteHandler s info ((snd (deleteHandler s info w))\<lparr>now := later\<rparr>))) =
      taskNDeleted w + 150"
    using run2 r1 w4(2) w2(5) by (simp add: deleteHandlerLog_frame tryDeleteTaskList_frame)
  show "tasksOf ?k (rows (snd (deleteHandler s info ((snd (deleteHandler s info w))\<lparr>now := later\<rparr>)))) = []"
    using run2 r1 e4 by (simp add: deleteHandlerLog_frame tryDeleteTaskList_frame)
  show "\<exists>w2. tasksOf ?k (rows w2) = [] \<and>
      snd (deleteHandler s info ((snd (deleteHandler s info w))\<lparr>now := later\<rparr>)) =
        deleteHandlerLog info 50 50 None (tryDeleteTaskList s info w2)"
    using run2 r1 e4 by auto
  have nt: "nat (taskBatchSizeFn s) = 100" using b by simp
  show c1: "calls (snd (deleteHandler s info w)) =
      calls w @ [GetTasks ?k 100, CompleteTasks ?k (TaskID (last (take 100 ?ts))) 100]"
    using r1 w2(9) l1 b nt by (simp add: deleteHandlerLog_frame)
  have "take (nat (taskBatchSizeFn s)) (drop 100 ?ts) = drop 100 ?ts" using len nt by simp
  moreover have "last (drop 100 ?ts) = last ?ts" using len by (simp add: last_drop)
  ultimately have lst: "last (take (nat (taskBatchSizeFn s)) (drop 100 ?ts)) = last ?ts" by simp
  have c4: "calls w4 = calls (snd (deleteHandler s info w)) @
      [GetTasks ?k 100, CompleteTasks ?k (TaskID (last ?ts)) 50]"
    using w4(7) l2 b lst r1 by (simp add: deleteHandlerLog_frame)
  have may: "mayDeleteTaskList s info w4 \<longleftrightarrow>
      \<not> HasPrefix (Name info) scannerTaskListPrefix \<and> taskListGracePeriod s \<le> later - LastUpdated info"
    using w4(4) by (simp add: mayDeleteTaskList_def)
  have r2: "snd (deleteHandler s info ((snd (deleteHandler s info w))\<lparr>now := later\<rparr>)) =
      deleteHandlerLog info 50 50 None (tryDeleteTaskList s info w4)"
    using run2 r1 by simp
  have ct: "calls (tryDeleteTaskList s info w4) =
      calls w4 @ (if mayDeleteTaskList s info w4 then [DeleteTaskList ?k (RangeID info)] else [])"
    using tryDeleteTaskList_attempt(1) [of s info w4] tryDeleteTaskList_no_attempt [of s info w4]
    by (cases "mayDeleteTaskList s info w4") simp_all
  show c2: "calls (snd (deleteHandler s info ((snd (deleteHandler s info w))\<lparr>now := later\<rparr>))) =
      calls (snd (deleteHandler s info w)) @
        [GetTasks ?k 100, CompleteTasks ?k (TaskID (last ?ts)) 50] @
        (if \<not> HasPrefix (Name info) scannerTaskListPrefix \<and>
            taskListGracePeriod s \<le> later - LastUpdated info
         then [DeleteTaskList ?k (RangeID info)] else [])"
    unfolding r2 using ct c4 may by (simp add: deleteHandlerLog_frame)
  show "deleteAttempted ((snd (deleteHandler s info w))\<lparr>now := later\<rparr>)
        (snd (deleteHandler s info ((snd (deleteHandler s info w))\<lparr>now := later\<rparr>))) =
      (\<not> HasPrefix (Name info) scannerTaskListPrefix \<and>
       taskListGracePeriod s \<le> later - LastUpdated info)"
    unfolding deleteAttempted_def c2 by simp
  assume g: "\<not> HasPrefix (Name info) scannerTaskListPrefix \<and>
      taskListGracePeriod s \<le> later - LastUpdated info \<and>
      list_ex (\<lambda>m. queueOf m = queueOf info \<and> RangeID m = RangeID info) (taskLists w)"
  with may have m4: "mayDeleteTaskList s info w4" by simp
  have tl4: "taskLists w4 = taskLists w" using w4(5) w2(7) by (simp add: deleteHandlerLog_frame)
  have n4: "tasklistNDeleted w4 = tasklistNDeleted w"
    using w4(6) w2(8) by (simp add: deleteHandlerLog_frame)
  from g tl4
  have "list_ex (\<lambda>m. queueOf m = queueOf info \<and> RangeID m = RangeID info) (taskLists w4)"
    by simp
  from tryDeleteTaskList_attempt(2) [OF m4 w4(3) this] tl4 n4
  have d: "taskLists (tryDeleteTaskList s info w4) = filter (\<lambda>m. queueOf m \<noteq> queueOf info) (taskLists w)"
    "tasklistNDeleted (tryDeleteTaskList s info w4) = tasklistNDeleted w + 1"
    by simp_all
  show "taskLists (snd (deleteHandler s info ((snd (deleteHandler s info w))\<lparr>now := later\<rparr>))) =
      filter (\<lambda>m. queueOf m \<noteq> queueOf info) (taskLists w)"
    unfolding r2 using d(1) by (simp add: deleteHandlerLog_frame)
  show "tasklistNDeleted
        (snd (deleteHandler s info ((snd (deleteHandler s info w))\<lparr>now := later\<rparr>))) =
      tasklistNDeleted w + 1"
    unfolding r2 using d(2) by (simp add: deleteHandlerLog_frame)
qed


lemma sorted_map_int_upt: "sorted (map int [m..<n])"
  by (induction n) (auto simp: sorted_append)

theorem all_expired_defer_iff_budget_witness:
  "fst (deleteHandler scenarioScavenger demoQueue scenarioWorld) = handlerStatusDefer \<and>
   taskNDeleted (snd (deleteHandler scenarioScavenger demoQueue scenarioWorld)) = 100 \<and>
   fst (deleteHandler scenarioScavenger demoQueue
          ((snd (deleteHandler scenarioScavenger demoQueue scenarioWorld))\<lparr>now := 2000\<rparr>)) =
     handlerStatusDone \<and>
   taskNDeleted (snd (deleteHandler scenarioScavenger demoQueue
          ((snd (deleteHandler scenarioScavenger demoQueue scenarioWorld))\<lparr>now := 2000\<rparr>))) = 150 \<and>
   tasksOf (queueOf demoQueue) (rows (snd (deleteHandler scenarioScavenger demoQueue
          ((snd (deleteHandler scenarioScavenger demoQueue scenarioWorld))\<lparr>now := 2000\<rparr>)))) = [] \<and>
   calls (snd (deleteHandler scenarioScavenger demoQueue scenarioWorld)) =
     [GetTasks (queueOf demoQueue) 100, CompleteTasks (queueOf demoQueue) 100 100] \<and>
   calls (snd (deleteHandler scenarioScavenger demoQueue
          ((snd (deleteHandler scenarioScavenger demoQueue scenarioWorld))\<lparr>now := 2000\<rparr>))) =
     [GetTasks (queueOf demoQueue) 100, CompleteTasks (queueOf demoQueue) 100 100,
      GetTasks (queueOf demoQueue) 100, CompleteTasks (queueOf demoQueue) 150 50,
      DeleteTaskList (queueOf demoQueue) 7] \<and>
   deleteAttempted ((snd (deleteHandler scenarioScavenger demoQueue scenarioWorld))\<lparr>now := 2000\<rparr>)
     (snd (deleteHandler scenarioScavenger demoQueue
          ((snd (deleteHandler scenarioScavenger demoQueue scenarioWorld))\<lparr>now := 2000\<rparr>))) \<and>
   taskLists (snd (deleteHandler scenarioScavenger demoQueue
          ((snd (deleteHandler scenarioScavenger demoQueue scenarioWorld))\<lparr>now := 2000\<rparr>))) = [] \<and>
   tasklistNDeleted (snd (deleteHandler scenarioScavenger demoQueue
          ((snd (deleteHandler scenarioScavenger demoQueue scenarioWorld))\<lparr>now := 2000\<rparr>))) = 1"
proof -
  let ?ts = "map (\<lambda>i. expiredTask (int i)) [1..<151]"
  have "rows scenarioWorld = map (Pair (queueOf demoQueue)) ?ts"
    by (simp add: scenarioWorld_def demoWorld_def)
  then have ts: "tasksOf (queueOf demoQueue) (rows scenarioWorld) = ?ts"
    by (simp only: tasksOf_map_Pair)
  have "map TaskID ?ts = map int [1..<151]"
    by (simp add: expiredTask_def comp_def)
  then have srt: "sortedQueue (queueOf demoQueue) scenarioWorld"
    unfolding sortedQueue_def ts by (simp only: sorted_map_int_upt)
  have nf: "faults scenarioWorld = []" by (simp add: scenarioWorld_def demoWorld_def)
  have ex: "\<forall>t \<in> set (tasksOf (queueOf demoQueue) (rows scenarioWorld)).
      isTaskExpired (now scenarioWorld) t"
    unfolding ts by (auto simp: isTaskExpired_def expiredTask_def scenarioWorld_def demoWorld_def)
  have sc: "length (tasksOf (queueOf demoQueue) (rows scenarioWorld)) = 150 \<and>
      taskBatchSizeFn scenarioScavenger = 100 \<and> maxTasksPerJobFn scenarioScavenger = 100 \<and>
      now scenarioWorld \<le> 2000"
    unfolding ts by (simp add: scenarioScavenger_def scenarioWorld_def demoWorld_def)
  have z: "taskNDeleted scenarioWorld = 0" "tasklistNDeleted scenarioWorld = 0"
    "calls scenarioWorld = []" "taskLists scenarioWorld = [demoQueue]"
    by (simp_all add: scenarioWorld_def demoWorld_def)
  have gd: "\<not> HasPrefix (Name demoQueue) scannerTaskListPrefix"
    "taskListGracePeriod scenarioScavenger \<le> 2000 - LastUpdated demoQueue"
    "RangeID demoQueue = 7"
    by (simp_all add: HasPrefix_def scannerTaskListPrefix_def demoQueue_def scenarioScavenger_def)
  have "[1..<151::nat] \<noteq> []" by simp
  then have "last ?ts = expiredTask (int (last [1..<151]))" by (rule last_map)
  then have la: "TaskID (last (tasksOf (queueOf demoQueue) (rows scenarioWorld))) = 150"
    unfolding ts by (simp add: expiredTask_def)
  have tk: "take 100 ?ts = map (\<lambda>i. expiredTask (int i)) [1..<101]"
    by (simp only: take_map take_upt) simp
  have "[1..<101::nat] \<noteq> []" by simp
  then have "last (map (\<lambda>i. expiredTask (int i)) [1..<101]) = expiredTask (int (last [1..<101]))"
    by (rule last_map)
  with tk have "last (take 100 ?ts) = expiredTask (int (last [1..<101]))"
    by (simp only:)
  then have lb: "TaskID (last (take 100 (tasksOf (queueOf demoQueue) (rows scenarioWorld)))) = 100"
    unfolding ts by (simp add: expiredTask_def)
  from all_expired_defer_iff_budget [OF srt nf ex, of scenarioScavenger 2000,
      THEN conjunct2, THEN conjunct2, rule_format, OF sc] z gd la lb
  show ?thesis by simp
qed

end
